theory Spec2Isabelle
  imports Main
begin

section \<open>Data model of the session server\<close>

text \<open>
  The repository holds two servers with the same room logic, both in the source file
  \<open>src/unnamed/part_001\<close>: a Socket.io server (lines 1 to 496) and a WebSocket server (lines
  497 to 1007). Both keep two global tables, \<open>rooms\<close> and \<open>waitingPlayers\<close>, and one
  closure per connection holding the variables \<open>playerId\<close> and \<open>roomId\<close>. The handlers of
  the two servers are the same statements but for the way a message is sent; where the
  servers differ (exceptions, disconnection) each has its own definition below.

  Player identifiers (uuids), room codes and names are strings. A connection is named by a
  number standing for the socket (\<open>socket.id\<close> in one server, the \<open>ws\<close> object in the other).
  JavaScript objects whose iteration order the code depends on (\<open>players\<close>,
  \<open>waitingPlayers\<close>) are association lists in insertion order; the others are maps.
\<close>

type_synonym pid = string
type_synonym code = string
type_synonym cid = nat
type_synonym tid = nat

datatype error = TypeError

record player =
  socketId :: cid
  ready :: bool
  isHost :: bool
  name :: string

record waiting =
  w_socketId :: cid
  w_name :: string

record ball =
  ball_x :: int
  ball_y :: int
  speedX :: int
  speedY :: int

text \<open>A paddle is the object \<open>{ y: ... }\<close>; \<open>None\<close> is JavaScript's \<open>undefined\<close>.\<close>

record paddle =
  paddle_y :: "int option"

record gameState =
  gs_ball :: "ball option"
  paddles :: "pid \<rightharpoonup> paddle"
  scores :: "pid \<rightharpoonup> int"

record matchState =
  currentSet :: int
  timeRemaining :: int
  isRestPeriod :: bool
  restTimeRemaining :: int
  set1Scores :: "pid \<rightharpoonup> int"
  set2Scores :: "pid \<rightharpoonup> int"
  lastUpdateTime :: int

record room =
  players :: "(pid \<times> player) list"
  gameState :: gameState
  gameStarted :: bool
  matchState :: "matchState option"
  matchTimer :: "tid option"

text \<open>The variables of one connection's closure.\<close>

record conn =
  playerId :: pid
  roomId :: "code option"

text \<open>
  An interval timer made by \<open>setInterval\<close> in the \<open>player_ready\<close> handler. Its callback
  reads the variable \<open>roomId\<close> of the connection that made it (\<open>owner\<close>) and the constant
  \<open>playerIds\<close> captured when it was made (\<open>tp0\<close>, \<open>tp1\<close> are \<open>playerIds[0]\<close> and
  \<open>playerIds[1]\<close>). \<open>clearInterval\<close> makes it inactive.
\<close>

record timer =
  owner :: cid
  tp0 :: pid
  tp1 :: pid
  active :: bool

datatype msg =
    Connection pid
  | RoomCreated code
  | PlayerJoined pid string
  | RoomJoined code string
  | ErrorMsg string
  | WaitingForOpponent
  | GameFound code bool string
  | GameStarting gameState "pid list" "(pid \<times> string) list" pid
  | OpponentMove "int option"
  | BallUpdate "ball option"
  | ScoreUpdate "pid \<rightharpoonup> int"
  | TimerUpdate int int
  | RestPeriodStarting matchState
  | RestPeriodUpdate int
  | Set2Starting matchState
  | MatchResults matchState
  | OpponentDisconnected

record state =
  rooms :: "code \<rightharpoonup> room"
  waitingPlayers :: "(pid \<times> waiting) list"
  conns :: "cid \<rightharpoonup> conn"
  timers :: "timer list"
  outbox :: "(cid \<times> msg) list"

definition init :: state where
  "init = \<lparr> rooms = Map.empty, waitingPlayers = [], conns = Map.empty, timers = [],
            outbox = [] \<rparr>"

section \<open>JavaScript helpers\<close>

text \<open>A string is truthy when it is not empty.\<close>

definition truthy :: "string \<Rightarrow> bool" where
  "truthy s = (s \<noteq> [])"

text \<open>\<open>obj[k] = v\<close> on an object with string keys that are not array indices: an
  existing key keeps its place, a new key goes last.\<close>

fun obj_set :: "('k \<times> 'v) list \<Rightarrow> 'k \<Rightarrow> 'v \<Rightarrow> ('k \<times> 'v) list" where
  "obj_set [] k v = [(k, v)]"
| "obj_set ((k', v') # kvs) k v =
     (if k' = k then (k, v) # kvs else (k', v') # obj_set kvs k v)"

text \<open>\<open>delete obj[k]\<close>.\<close>

definition obj_delete :: "('k \<times> 'v) list \<Rightarrow> 'k \<Rightarrow> ('k \<times> 'v) list" where
  "obj_delete kvs k = filter (\<lambda>kv. fst kv \<noteq> k) kvs"

text \<open>\<open>data.playerName || "Player"\<close>: a missing or empty name becomes \<open>Player\<close>.\<close>

definition name_or_default :: "string option \<Rightarrow> string" where
  "name_or_default n = (case n of None \<Rightarrow> ''Player''
                        | Some s \<Rightarrow> if truthy s then s else ''Player'')"

text \<open>
  Numbers are IEEE doubles. The integers of this model stand for the doubles whose value
  is an integer. \<open>to_double n\<close> is the double nearest to the integer \<open>n\<close>, ties going to the
  even significand of 53 bits (adding one to a double never overflows), and
  \<open>js_add x y\<close> is \<open>x + y\<close> as JavaScript computes it on two such doubles: the exact sum,
  rounded. Below \<open>2 ^ 53\<close> in magnitude nothing is rounded; \<open>2 ^ 53 + 1\<close> is not a double and
  rounds to \<open>2 ^ 53\<close>.
\<close>

fun bit_length :: "nat \<Rightarrow> nat" where
  "bit_length n = (if n = 0 then 0 else Suc (bit_length (n div 2)))"

definition to_double :: "int \<Rightarrow> int" where
  "to_double n =
     (let a = nat \<bar>n\<bar>;
          e = bit_length a - 53;
          q = a div 2 ^ e;
          r = a mod 2 ^ e;
          q' = (if 2 * r > 2 ^ e \<or> (2 * r = 2 ^ e \<and> odd q) then q + 1 else q)
      in sgn n * int (q' * 2 ^ e))"

definition js_add :: "int \<Rightarrow> int \<Rightarrow> int" where
  "js_add x y = to_double (x + y)"

text \<open>
  \<open>toUpperCase\<close> and \<open>trim\<close> on ASCII text: the letters \<open>a\<close> to \<open>z\<close> are raised, and the
  white space removed at both ends is tab, line feed, vertical tab, form feed, carriage
  return and space. The strings of this model are ASCII: on other text JavaScript also
  raises letters beyond \<open>a\<close> to \<open>z\<close> and also trims the white space beyond ASCII (such as
  U+00A0, U+2028 and U+FEFF), which these two definitions do not.
\<close>

definition upper_char :: "char \<Rightarrow> char" where
  "upper_char c =
     (case map_of (zip ''abcdefghijklmnopqrstuvwxyz'' ''ABCDEFGHIJKLMNOPQRSTUVWXYZ'') c of
        None \<Rightarrow> c
      | Some u \<Rightarrow> u)"

definition toUpperCase :: "string \<Rightarrow> string" where
  "toUpperCase s = map upper_char s"

definition is_space :: "char \<Rightarrow> bool" where
  "is_space c = (c \<in> set [CHR 0x09, CHR 0x0A, CHR 0x0B, CHR 0x0C, CHR 0x0D, CHR '' ''])"

definition trim :: "string \<Rightarrow> string" where
  "trim s = rev (dropWhile is_space (rev (dropWhile is_space s)))"

text \<open>\<open>s.substring(a, b)\<close> for \<open>a \<le> b\<close>.\<close>

definition substring :: "nat \<Rightarrow> nat \<Rightarrow> string \<Rightarrow> string" where
  "substring a b s = take (b - a) (drop a s)"

text \<open>
  The room code \<open>Math.random().toString(36).substring(2, 8).toUpperCase()\<close>. The argument
  is the text \<open>Math.random().toString(36)\<close>: for a number in the unit interval it is \<open>0\<close>
  alone, or \<open>0.\<close> followed by the digits of the number in base 36, as many as the number
  needs.
\<close>

definition shortRoomId :: "string \<Rightarrow> code" where
  "shortRoomId rnd = toUpperCase (substring 2 8 rnd)"

text \<open>The digits of base 36 as \<open>toString(36)\<close> writes them, and the characters of a
  room code.\<close>

definition base36_digit :: "char \<Rightarrow> bool" where
  "base36_digit c = (c \<in> set ''0123456789abcdefghijklmnopqrstuvwxyz'')"

definition code_char :: "char \<Rightarrow> bool" where
  "code_char c = (c \<in> set ''0123456789ABCDEFGHIJKLMNOPQRSTUVWXYZ'')"

text \<open>The text \<open>toString(36)\<close> gives for a number in the unit interval.\<close>

definition unit_rendering :: "string \<Rightarrow> bool" where
  "unit_rendering s = (s = ''0'' \<or>
     (take 2 s = ''0.'' \<and> drop 2 s \<noteq> [] \<and> list_all base36_digit (drop 2 s)))"

text \<open>The code \<open>join_room\<close> looks up: \<open>data.roomId.trim().toUpperCase()\<close>.\<close>

definition normalize_code :: "string \<Rightarrow> code" where
  "normalize_code s = toUpperCase (trim s)"

section \<open>Sending\<close>

text \<open>
  \<open>socket.emit\<close>, \<open>io.to(socketId).emit\<close> and \<open>ws.send(JSON.stringify(...))\<close> append
  one message for one socket to the log of outbound events. The payload is the value at
  the moment of the call.
\<close>

definition emit :: "cid \<Rightarrow> msg \<Rightarrow> state \<Rightarrow> state" where
  "emit to m st = st\<lparr> outbox := outbox st @ [(to, m)] \<rparr>"

text \<open>\<open>for (const pid in players) send(players[pid], f pid)\<close>.\<close>

definition broadcast :: "(pid \<times> player) list \<Rightarrow> (pid \<Rightarrow> msg) \<Rightarrow> state \<Rightarrow> state" where
  "broadcast ps f st =
     st\<lparr> outbox := outbox st @ map (\<lambda>(p, pl). (socketId pl, f p)) ps \<rparr>"

text \<open>The loop that sends to the first player other than the sender and breaks.\<close>

definition relay_other :: "(pid \<times> player) list \<Rightarrow> pid \<Rightarrow> msg \<Rightarrow> state \<Rightarrow> state" where
  "relay_other ps me m st =
     (case find (\<lambda>(p, pl). p \<noteq> me) ps of
        None \<Rightarrow> st
      | Some (p, pl) \<Rightarrow> emit (socketId pl) m st)"

definition set_roomId :: "cid \<Rightarrow> conn \<Rightarrow> code \<Rightarrow> state \<Rightarrow> state" where
  "set_roomId c cn k st = st\<lparr> conns := (conns st)(c \<mapsto> cn\<lparr> roomId := Some k \<rparr>) \<rparr>"

definition clearInterval :: "tid option \<Rightarrow> state \<Rightarrow> state" where
  "clearInterval t st =
     (case t of
        None \<Rightarrow> st
      | Some i \<Rightarrow> if i < length (timers st)
                  then st\<lparr> timers := (timers st)[i := (timers st ! i)\<lparr> active := False \<rparr>] \<rparr>
                  else st)"

definition initial_gameState :: gameState where
  "initial_gameState =
     \<lparr> gs_ball = Some \<lparr> ball_x = 400, ball_y = 200, speedX = 0, speedY = 0 \<rparr>,
       paddles = Map.empty, scores = Map.empty \<rparr>"

definition new_room :: "(pid \<times> player) list \<Rightarrow> room" where
  "new_room ps = \<lparr> players = ps, gameState = initial_gameState, gameStarted = False,
                   matchState = None, matchTimer = None \<rparr>"

section \<open>Handlers of inbound events\<close>

text \<open>
  Each handler takes the socket \<open>c\<close> and the closure variables \<open>cn\<close> of its connection.
  A handler that throws returns \<open>Inl TypeError\<close>; every throw in these handlers comes
  before the handler's first assignment, so the state at the throw is the state before
  the event. A payload is an object; a field the client left out is \<open>None\<close>, a field that
  is there has the type the handler expects (scores and coordinates are numbers with
  integer values).

  \<open>create_room\<close> (lines 39 to 68 and 536 to 566), \<open>join_room\<close> (lines 71 to 128 and 568 to
  629) and \<open>find_game\<close> (lines 131 to 202 and 631 to 706). \<open>data.roomId.trim()\<close> throws when
  \<open>roomId\<close> is missing. \<open>rnd\<close> is the text of the random number drawn for the room code.
\<close>

definition create_room :: "cid \<Rightarrow> conn \<Rightarrow> string \<Rightarrow> string option \<Rightarrow> state \<Rightarrow> error + state" where
  "create_room c cn rnd pname st =
     (let k = shortRoomId rnd;
          playerName = name_or_default pname;
          r = new_room [(playerId cn,
                \<lparr> socketId = c, ready = False, isHost = True, name = playerName \<rparr>)];
          st1 = st\<lparr> rooms := (rooms st)(k \<mapsto> r) \<rparr>;
          st2 = set_roomId c cn k st1
      in Inr (emit c (RoomCreated k) st2))"

definition join_room :: "cid \<Rightarrow> conn \<Rightarrow> string option \<Rightarrow> string option \<Rightarrow> state \<Rightarrow> error + state" where
  "join_room c cn rid pname st =
     (case rid of
        None \<Rightarrow> Inl TypeError
      | Some s \<Rightarrow>
          let roomCode = normalize_code s;
              joiningPlayerName = name_or_default pname
          in (case rooms st roomCode of
                None \<Rightarrow> Inr (emit c (ErrorMsg ''Room not found'') st)
              | Some r \<Rightarrow>
                  let st1 = set_roomId c cn roomCode st
                  in if length (players r) \<ge> 2
                     then Inr (emit c (ErrorMsg ''Room is full'') st1)
                     else
                       let ps = obj_set (players r) (playerId cn)
                                  \<lparr> socketId = c, ready = False, isHost = False,
                                    name = joiningPlayerName \<rparr>;
                           st2 = st1\<lparr> rooms := (rooms st1)(roomCode \<mapsto> r\<lparr> players := ps \<rparr>) \<rparr>
                       in (case find (\<lambda>(p, pl). isHost pl) ps of
                             None \<Rightarrow> Inr (emit c (RoomJoined roomCode ''Host'') st2)
                           | Some (hp, hpl) \<Rightarrow>
                               Inr (emit c (RoomJoined roomCode (name hpl))
                                     (emit (socketId hpl)
                                        (PlayerJoined (playerId cn) joiningPlayerName) st2)))))"

definition find_game :: "cid \<Rightarrow> conn \<Rightarrow> string \<Rightarrow> string option \<Rightarrow> state \<Rightarrow> error + state" where
  "find_game c cn rnd pname st =
     (let quickMatchPlayerName = name_or_default pname;
          wp = obj_set (waitingPlayers st) (playerId cn)
                 \<lparr> w_socketId = c, w_name = quickMatchPlayerName \<rparr>;
          st1 = st\<lparr> waitingPlayers := wp \<rparr>
      in if length wp \<ge> 2
         then (case find (\<lambda>(p, w). p \<noteq> playerId cn) wp of
                 None \<Rightarrow> Inr st1
               | Some (otherPlayerId, ow) \<Rightarrow>
                   if \<not> truthy otherPlayerId then Inr st1
                   else
                     let k = shortRoomId rnd;
                         r = new_room
                               (obj_set
                                  [(playerId cn, \<lparr> socketId = c, ready = False, isHost = True,
                                                  name = quickMatchPlayerName \<rparr>)]
                                  otherPlayerId
                                  \<lparr> socketId = w_socketId ow, ready = False, isHost = False,
                                    name = w_name ow \<rparr>);
                         st2 = set_roomId c cn k st1;
                         st3 = st2\<lparr> rooms := (rooms st2)(k \<mapsto> r),
                                    waitingPlayers :=
                                      obj_delete (obj_delete wp (playerId cn)) otherPlayerId \<rparr>
                     in Inr (emit (w_socketId ow) (GameFound k False quickMatchPlayerName)
                              (emit c (GameFound k True (w_name ow)) st3)))
         else Inr (emit c WaitingForOpponent st1))"

text \<open>
  The guard \<open>roomId && rooms[roomId]\<close> that most handlers start with: the room the
  connection is bound to, when the binding is a truthy string and the room exists.
\<close>

definition bound_room :: "conn \<Rightarrow> state \<Rightarrow> (code \<times> room) option" where
  "bound_room cn st =
     (case roomId cn of
        None \<Rightarrow> None
      | Some k \<Rightarrow> if truthy k
                  then (case rooms st k of None \<Rightarrow> None | Some r \<Rightarrow> Some (k, r))
                  else None)"

definition put_room :: "code \<Rightarrow> room \<Rightarrow> state \<Rightarrow> state" where
  "put_room k r st = st\<lparr> rooms := (rooms st)(k \<mapsto> r) \<rparr>"

text \<open>
  \<open>player_ready\<close> (lines 205 to 375 and 708 to 886). \<open>now\<close> is \<open>Date.now()\<close>. When every player is ready and there are two
  of them the game starts: the paddles, scores and match state are set, an interval timer
  is made and stored in the room, and \<open>game_starting\<close> goes to every player. The two
  \<open>setTimeout\<close> callbacks that release the ball later are not part of this model.
  \<open>started_room\<close> is the room after the assignments, \<open>t\<close> the new timer.
\<close>

definition started_room :: "room \<Rightarrow> (pid \<times> player) list \<Rightarrow> int \<Rightarrow> tid \<Rightarrow> room" where
  "started_room r ps now t =
     (let playerIds = map fst ps;
          p0 = playerIds ! 0;
          p1 = playerIds ! 1;
          gs = gameState r;
          gs' = gs\<lparr> paddles := (paddles gs)(p0 \<mapsto> \<lparr> paddle_y = Some 150 \<rparr>,
                                                p1 \<mapsto> \<lparr> paddle_y = Some 150 \<rparr>),
                    scores := (scores gs)(p0 \<mapsto> 0, p1 \<mapsto> 0) \<rparr>;
          ms = \<lparr> currentSet = 1, timeRemaining = 2 * 60, isRestPeriod = False,
                 restTimeRemaining = 0,
                 set1Scores = [p0 \<mapsto> 0, p1 \<mapsto> 0],
                 set2Scores = [p0 \<mapsto> 0, p1 \<mapsto> 0],
                 lastUpdateTime = now \<rparr>
      in r\<lparr> players := ps, gameStarted := True, gameState := gs',
            matchState := Some ms, matchTimer := Some t \<rparr>)"

definition start_game :: "cid \<Rightarrow> code \<Rightarrow> room \<Rightarrow> (pid \<times> player) list \<Rightarrow> int \<Rightarrow> state \<Rightarrow> state" where
  "start_game c k r ps now st =
     (let playerIds = map fst ps;
          r' = started_room r ps now (length (timers st));
          st1 = st\<lparr> rooms := (rooms st)(k \<mapsto> r'),
                     timers := timers st @ [\<lparr> owner = c, tp0 = playerIds ! 0,
                                              tp1 = playerIds ! 1, active = True \<rparr>] \<rparr>;
          playerNames = map (\<lambda>(p, pl). (p, name pl)) ps
      in broadcast ps (\<lambda>p. GameStarting (gameState r') playerIds playerNames p) st1)"

definition player_ready :: "cid \<Rightarrow> conn \<Rightarrow> int \<Rightarrow> state \<Rightarrow> error + state" where
  "player_ready c cn now st =
     (case bound_room cn st of
        None \<Rightarrow> Inr st
      | Some (k, r) \<Rightarrow>
          (case map_of (players r) (playerId cn) of
             None \<Rightarrow> Inr st
           | Some pl \<Rightarrow>
               let ps = obj_set (players r) (playerId cn) (pl\<lparr> ready := True \<rparr>);
                   allReady = list_all (\<lambda>(p, q). ready q) ps
               in if allReady \<and> length ps = 2
                  then Inr (start_game c k r ps now st)
                  else Inr (put_room k (r\<lparr> players := ps \<rparr>) st)))"

text \<open>
  \<open>paddle_move\<close> (lines 378 to 393 and 888 to 904), \<open>ball_update\<close> (lines 396 to 413 and 906
  to 924), \<open>score_update\<close> (lines 416 to 432 and 926 to 943) and \<open>player_scored\<close> (lines 435
  to 456 and 945 to 967). \<open>paddles[playerId].y = data.y\<close> throws when the player has no
  paddle. \<open>(scores[id] || 0) + 1\<close> counts a missing score as zero and adds in doubles.
\<close>

definition paddle_move :: "cid \<Rightarrow> conn \<Rightarrow> int option \<Rightarrow> state \<Rightarrow> error + state" where
  "paddle_move c cn y st =
     (case bound_room cn st of
        None \<Rightarrow> Inr st
      | Some (k, r) \<Rightarrow>
          if map_of (players r) (playerId cn) \<noteq> None \<and> gameStarted r
          then (case paddles (gameState r) (playerId cn) of
                  None \<Rightarrow> Inl TypeError
                | Some pd \<Rightarrow>
                    let gs = gameState r;
                        gs' = gs\<lparr> paddles := (paddles gs)(playerId cn \<mapsto> pd\<lparr> paddle_y := y \<rparr>) \<rparr>
                    in Inr (relay_other (players r) (playerId cn) (OpponentMove y)
                             (put_room k (r\<lparr> gameState := gs' \<rparr>) st)))
          else Inr st)"

definition ball_update :: "cid \<Rightarrow> conn \<Rightarrow> ball option \<Rightarrow> state \<Rightarrow> error + state" where
  "ball_update c cn b st =
     (case bound_room cn st of
        None \<Rightarrow> Inr st
      | Some (k, r) \<Rightarrow>
          (case map_of (players r) (playerId cn) of
             None \<Rightarrow> Inr st
           | Some pl \<Rightarrow>
               if gameStarted r
               then (if isHost pl
                     then Inr (relay_other (players r) (playerId cn) (BallUpdate b)
                                (put_room k (r\<lparr> gameState := (gameState r)\<lparr> gs_ball := b \<rparr> \<rparr>) st))
                     else Inr st)
               else Inr st))"

definition score_update :: "cid \<Rightarrow> conn \<Rightarrow> (pid \<rightharpoonup> int) option \<Rightarrow> state \<Rightarrow> error + state" where
  "score_update c cn sc st =
     (case bound_room cn st of
        None \<Rightarrow> Inr st
      | Some (k, r) \<Rightarrow>
          (case sc of
             None \<Rightarrow> Inr st
           | Some ds \<Rightarrow>
               let gs = gameState r;
                   gs' = gs\<lparr> scores := scores gs ++ ds \<rparr>
               in Inr (broadcast (players r) (\<lambda>p. ScoreUpdate (scores gs'))
                        (put_room k (r\<lparr> gameState := gs' \<rparr>) st))))"

definition player_scored :: "cid \<Rightarrow> conn \<Rightarrow> string option \<Rightarrow> state \<Rightarrow> error + state" where
  "player_scored c cn sp st =
     (case bound_room cn st of
        None \<Rightarrow> Inr st
      | Some (k, r) \<Rightarrow>
          (case sp of
             None \<Rightarrow> Inr st
           | Some scoringPlayerId \<Rightarrow>
               if truthy scoringPlayerId \<and> scoringPlayerId \<in> set (map fst (players r))
               then
                 let gs = gameState r;
                     old = (case scores gs scoringPlayerId of None \<Rightarrow> 0 | Some v \<Rightarrow> v);
                     gs' = gs\<lparr> scores := (scores gs)(scoringPlayerId \<mapsto> js_add old 1) \<rparr>
                 in Inr (broadcast (players r) (\<lambda>p. ScoreUpdate (scores gs'))
                          (put_room k (r\<lparr> gameState := gs' \<rparr>) st))
               else Inr st))"

section \<open>Disconnection\<close>

text \<open>
  The handlers of \<open>disconnect\<close> (lines 459 to 486) and \<open>close\<close> (lines 975 to 1000). The two
  servers differ here. Both remove the connection from the waiting list, send
  \<open>opponent_disconnected\<close> to every player of the bound room whose id is not the
  connection's, remove the connection's player and delete the room when no player is
  left. The Socket.io server clears the room's timer before it deletes the room; the
  WebSocket server does not. The test \<open>players[pid].socketId\<close> (or \<open>.ws\<close>) in the loop is
  always true: every player entry is made with its socket.
\<close>

definition notify_others :: "(pid \<times> player) list \<Rightarrow> pid \<Rightarrow> state \<Rightarrow> state" where
  "notify_others ps me st =
     broadcast (filter (\<lambda>(p, pl). p \<noteq> me) ps) (\<lambda>p. OpponentDisconnected) st"

definition delete_room :: "code \<Rightarrow> state \<Rightarrow> state" where
  "delete_room k st = st\<lparr> rooms := (rooms st)(k := None) \<rparr>"

definition disconnect_sio :: "cid \<Rightarrow> conn \<Rightarrow> state \<Rightarrow> state" where
  "disconnect_sio c cn st =
     (let st1 = st\<lparr> waitingPlayers := obj_delete (waitingPlayers st) (playerId cn) \<rparr>
      in case bound_room cn st1 of
           None \<Rightarrow> st1
         | Some (k, r) \<Rightarrow>
             let st2 = notify_others (players r) (playerId cn) st1;
                 ps = obj_delete (players r) (playerId cn)
             in if length ps = 0
                then delete_room k (clearInterval (matchTimer r) st2)
                else put_room k (r\<lparr> players := ps \<rparr>) st2)"

definition close_ws :: "cid \<Rightarrow> conn \<Rightarrow> state \<Rightarrow> state" where
  "close_ws c cn st =
     (let st1 = st\<lparr> waitingPlayers := obj_delete (waitingPlayers st) (playerId cn) \<rparr>
      in case bound_room cn st1 of
           None \<Rightarrow> st1
         | Some (k, r) \<Rightarrow>
             let st2 = notify_others (players r) (playerId cn) st1;
                 ps = obj_delete (players r) (playerId cn)
             in if length ps = 0
                then delete_room k st2
                else put_room k (r\<lparr> players := ps \<rparr>) st2)"

section \<open>The match timer\<close>

text \<open>
  The callback of the interval timer (lines 241 to 323 and 744 to 831), the same in both
  servers. It reads \<open>rooms[roomId]\<close>
  with the current value of its owner's variable \<open>roomId\<close> (a \<open>null\<close> key reads the
  property named \<open>null\<close>). When the room is gone the guard evaluates
  \<open>clearInterval(rooms[roomId].matchTimer)\<close>, which reads a property of \<open>undefined\<close>
  and throws; a room without match state throws at \<open>matchState.lastUpdateTime\<close>. \<open>now\<close>
  is \<open>Date.now()\<close>, in milliseconds.
\<close>

definition js_key :: "code option \<Rightarrow> code" where
  "js_key k = (case k of None \<Rightarrow> ''null'' | Some s \<Rightarrow> s)"

definition set_matchState :: "matchState \<Rightarrow> room \<Rightarrow> room" where
  "set_matchState ms r = r\<lparr> matchState := Some ms \<rparr>"

definition timer_body :: "timer \<Rightarrow> code \<Rightarrow> room \<Rightarrow> matchState \<Rightarrow> int \<Rightarrow> state \<Rightarrow> state" where
  "timer_body tm k r ms0 now st =
     (let elapsedSeconds = (now - lastUpdateTime ms0) div 1000;
          ms = ms0\<lparr> lastUpdateTime := now \<rparr>
      in if isRestPeriod ms
         then
           (let ms1 = ms\<lparr> restTimeRemaining := restTimeRemaining ms - elapsedSeconds \<rparr>
            in if restTimeRemaining ms1 \<le> 0
               then
                 (let ms2 = ms1\<lparr> isRestPeriod := False, currentSet := 2,
                                 timeRemaining := 2 * 60 \<rparr>;
                      gs = gameState r;
                      gs' = gs\<lparr> scores := (scores gs)(tp0 tm \<mapsto> 0, tp1 tm \<mapsto> 0) \<rparr>;
                      r' = r\<lparr> gameState := gs', matchState := Some ms2 \<rparr>
                  in broadcast (players r) (\<lambda>p. Set2Starting ms2) (put_room k r' st))
               else broadcast (players r) (\<lambda>p. RestPeriodUpdate (restTimeRemaining ms1))
                      (put_room k (set_matchState ms1 r) st))
         else
           (let ms1 = ms\<lparr> timeRemaining := timeRemaining ms - elapsedSeconds \<rparr>
            in if timeRemaining ms1 \<le> 0
               then
                 (if currentSet ms1 = 1
                  then
                    (let sc = scores (gameState r);
                         ms2 = ms1\<lparr> set1Scores := (set1Scores ms1)(tp0 tm := sc (tp0 tm),
                                                                    tp1 tm := sc (tp1 tm)),
                                     isRestPeriod := True, restTimeRemaining := 30 \<rparr>
                     in broadcast (players r) (\<lambda>p. RestPeriodStarting ms2)
                          (put_room k (set_matchState ms2 r) st))
                  else
                    (let sc = scores (gameState r);
                         ms2 = ms1\<lparr> set2Scores := (set2Scores ms1)(tp0 tm := sc (tp0 tm),
                                                                    tp1 tm := sc (tp1 tm)) \<rparr>
                     in clearInterval (matchTimer r)
                          (broadcast (players r) (\<lambda>p. MatchResults ms2)
                             (put_room k (set_matchState ms2 r) st))))
               else broadcast (players r)
                      (\<lambda>p. TimerUpdate (timeRemaining ms1) (currentSet ms1))
                      (put_room k (set_matchState ms1 r) st)))"

definition tick :: "tid \<Rightarrow> int \<Rightarrow> state \<Rightarrow> error + state" where
  "tick t now st =
     (if t < length (timers st) \<and> active (timers st ! t)
      then
        (let tm = timers st ! t
         in case conns st (owner tm) of
              None \<Rightarrow> Inr st
            | Some cn \<Rightarrow>
                (let k = js_key (roomId cn)
                 in case rooms st k of
                      None \<Rightarrow> Inl TypeError
                    | Some r \<Rightarrow>
                        (case matchState r of
                           None \<Rightarrow> Inl TypeError
                         | Some ms \<Rightarrow> Inr (timer_body tm k r ms now st))))
      else Inr st)"

section \<open>The two servers as transition systems\<close>

text \<open>
  An event is a new connection (with the uuid drawn for it), a message of a connection,
  its disconnection, or a firing of an interval timer. Fields a client may leave out are
  options. \<open>CreateRoom\<close> and \<open>FindGame\<close> carry the text of the random number drawn for the
  room code, \<open>PlayerReady\<close> and \<open>Tick\<close> the clock.
\<close>

datatype event =
    Connect cid pid
  | CreateRoom cid string "string option"
  | JoinRoom cid "string option" "string option"
  | FindGame cid string "string option"
  | PlayerReady cid int
  | PaddleMove cid "int option"
  | BallUpdateEv cid "ball option"
  | ScoreUpdateEv cid "(pid \<rightharpoonup> int) option"
  | PlayerScored cid "string option"
  | Disconnect cid
  | Tick tid int

datatype server = SocketIO | WebSocket

definition connect :: "cid \<Rightarrow> pid \<Rightarrow> state \<Rightarrow> state" where
  "connect c p st =
     (case conns st c of
        Some cn \<Rightarrow> st
      | None \<Rightarrow> emit c (Connection p)
                  (st\<lparr> conns := (conns st)(c \<mapsto> \<lparr> playerId = p, roomId = None \<rparr>) \<rparr>))"

text \<open>The handler of a message, for a connection that exists.\<close>

fun handle :: "event \<Rightarrow> cid \<Rightarrow> conn \<Rightarrow> state \<Rightarrow> error + state" where
  "handle (CreateRoom c' rnd pn) c cn st = create_room c cn rnd pn st"
| "handle (JoinRoom c' rid pn) c cn st = join_room c cn rid pn st"
| "handle (FindGame c' rnd pn) c cn st = find_game c cn rnd pn st"
| "handle (PlayerReady c' now) c cn st = player_ready c cn now st"
| "handle (PaddleMove c' y) c cn st = paddle_move c cn y st"
| "handle (BallUpdateEv c' b) c cn st = ball_update c cn b st"
| "handle (ScoreUpdateEv c' sc) c cn st = score_update c cn sc st"
| "handle (PlayerScored c' sp) c cn st = player_scored c cn sp st"
| "handle e c cn st = Inr st"

fun sender :: "event \<Rightarrow> cid option" where
  "sender (CreateRoom c rnd pn) = Some c"
| "sender (JoinRoom c rid pn) = Some c"
| "sender (FindGame c rnd pn) = Some c"
| "sender (PlayerReady c now) = Some c"
| "sender (PaddleMove c y) = Some c"
| "sender (BallUpdateEv c b) = Some c"
| "sender (ScoreUpdateEv c sc) = Some c"
| "sender (PlayerScored c sp) = Some c"
| "sender e = None"

text \<open>
  The Socket.io server runs a handler bare: what it throws is not caught. The WebSocket
  server runs it inside \<open>try\<close>/\<open>catch\<close>, logs what it throws and goes on.
\<close>

definition on_event_sio :: "event \<Rightarrow> cid \<Rightarrow> conn \<Rightarrow> state \<Rightarrow> error + state" where
  "on_event_sio e c cn st = handle e c cn st"

definition on_message_ws :: "event \<Rightarrow> cid \<Rightarrow> conn \<Rightarrow> state \<Rightarrow> error + state" where
  "on_message_ws e c cn st =
     (case handle e c cn st of Inl err \<Rightarrow> Inr st | Inr st' \<Rightarrow> Inr st')"

definition step :: "server \<Rightarrow> state \<Rightarrow> event \<Rightarrow> error + state" where
  "step sv st e =
     (case e of
        Connect c p \<Rightarrow> Inr (connect c p st)
      | Tick t now \<Rightarrow> tick t now st
      | Disconnect c \<Rightarrow>
          (case conns st c of
             None \<Rightarrow> Inr st
           | Some cn \<Rightarrow> (case sv of SocketIO \<Rightarrow> Inr (disconnect_sio c cn st)
                                  | WebSocket \<Rightarrow> Inr (close_ws c cn st)))
      | _ \<Rightarrow>
          (case sender e of
             None \<Rightarrow> Inr st
           | Some c \<Rightarrow>
               (case conns st c of
                  None \<Rightarrow> Inr st
                | Some cn \<Rightarrow> (case sv of SocketIO \<Rightarrow> on_event_sio e c cn st
                                       | WebSocket \<Rightarrow> on_message_ws e c cn st))))"

text \<open>A run stops at the first exception nobody catches.\<close>

fun run :: "server \<Rightarrow> state \<Rightarrow> event list \<Rightarrow> error + state" where
  "run sv st [] = Inr st"
| "run sv st (e # es) =
     (case step sv st e of Inl err \<Rightarrow> Inl err | Inr st' \<Rightarrow> run sv st' es)"

section \<open>Predicates used in the statements\<close>

text \<open>A room is well formed when it has at most two players, under distinct ids, and at
  most one of them is the host.\<close>

definition hosts :: "(pid \<times> player) list \<Rightarrow> (pid \<times> player) list" where
  "hosts ps = filter (\<lambda>(p, pl). isHost pl) ps"

definition room_ok :: "room \<Rightarrow> bool" where
  "room_ok r = (length (players r) \<le> 2 \<and> distinct (map fst (players r)) \<and>
                length (hosts (players r)) \<le> 1)"

definition rooms_ok :: "state \<Rightarrow> bool" where
  "rooms_ok st = (\<forall>k r. rooms st k = Some r \<longrightarrow> room_ok r)"

text \<open>
  \<open>keeps r r'\<close>: the change from \<open>r\<close> to \<open>r'\<close> leaves the players and the flag
  \<open>gameStarted\<close> as they are. \<open>inplace st st'\<close>: the rooms of \<open>st'\<close> are those of \<open>st\<close>, but for at
  most one room changed in that way.
\<close>

definition keeps :: "room \<Rightarrow> room \<Rightarrow> bool" where
  "keeps r r' = (players r' = players r \<and> gameStarted r' = gameStarted r)"

definition inplace :: "state \<Rightarrow> state \<Rightarrow> bool" where
  "inplace st st' = (rooms st' = rooms st \<or>
     (\<exists>k r r'. rooms st k = Some r \<and> rooms st' = (rooms st)(k \<mapsto> r') \<and> keeps r r'))"

text \<open>
  Runs used as examples. In \<open>lobby_trace\<close> one player makes a room, a second joins it and a
  third connects. In \<open>started_trace\<close> both players of the room say they are ready, so the
  game starts.
\<close>

definition started_trace :: "event list" where
  "started_trace =
     [Connect 0 ''a'', CreateRoom 0 ''0.abcdefgh'' None,
      Connect 1 ''b'', JoinRoom 1 (Some '' abcdef '') None,
      PlayerReady 0 1000, PlayerReady 1 2000]"

definition lobby_trace :: "event list" where
  "lobby_trace =
     [Connect 0 ''a'', CreateRoom 0 ''0.abcdefgh'' None,
      Connect 1 ''b'', JoinRoom 1 (Some '' abcdef '') None, Connect 2 ''c'']"

text \<open>What a run leaves in a room: the live score of a player and the match state.\<close>

definition live_score :: "error + state \<Rightarrow> code \<Rightarrow> pid \<Rightarrow> int option" where
  "live_score res k p =
     (case res of
        Inl e \<Rightarrow> None
      | Inr st \<Rightarrow> (case rooms st k of None \<Rightarrow> None | Some r \<Rightarrow> scores (gameState r) p))"

definition match_after :: "error + state \<Rightarrow> code \<Rightarrow> matchState option" where
  "match_after res k =
     (case res of
        Inl e \<Rightarrow> None
      | Inr st \<Rightarrow> (case rooms st k of None \<Rightarrow> None | Some r \<Rightarrow> matchState r))"

text \<open>The started game, one point for the host, and the tick that ends the first set, 120
  seconds after the start.\<close>

definition set1_end_trace :: "event list" where
  "set1_end_trace = started_trace @ [PlayerScored 0 (Some ''a''), Tick 0 122000]"

text \<open>More of what a run leaves: whether a room exists and which timers are active.\<close>

definition room_exists :: "error + state \<Rightarrow> code \<Rightarrow> bool" where
  "room_exists res k = (case res of Inl e \<Rightarrow> False | Inr st \<Rightarrow> rooms st k \<noteq> None)"

definition timers_active :: "error + state \<Rightarrow> bool list option" where
  "timers_active res = (case res of Inl e \<Rightarrow> None | Inr st \<Rightarrow> Some (map active (timers st)))"

text \<open>Both players of the started game disconnect. In \<open>ready_twice_trace\<close> the host has
  sent \<open>player_ready\<close> a second time before.\<close>

definition both_leave_trace :: "event list" where
  "both_leave_trace = started_trace @ [Disconnect 0, Disconnect 1]"

definition ready_twice_trace :: "event list" where
  "ready_twice_trace = started_trace @ [PlayerReady 0 2500, Disconnect 0, Disconnect 1]"

text \<open>The messages a run has sent, and the ball it leaves in a room.\<close>

definition outbox_after :: "error + state \<Rightarrow> (cid \<times> msg) list option" where
  "outbox_after res = (case res of Inl e \<Rightarrow> None | Inr st \<Rightarrow> Some (outbox st))"

definition ball_after :: "error + state \<Rightarrow> code \<Rightarrow> ball option option" where
  "ball_after res k =
     (case res of
        Inl e \<Rightarrow> None
      | Inr st \<Rightarrow> (case rooms st k of None \<Rightarrow> None | Some r \<Rightarrow> Some (gs_ball (gameState r))))"

text \<open>
  \<open>creates e k\<close>: the event is a \<open>create_room\<close> or \<open>find_game\<close> whose random draw gives the
  room code \<open>k\<close>. \<open>ready_completes st e k r\<close>: the event is a \<open>player_ready\<close> of a connection
  bound to room \<open>k\<close> whose id is a player of \<open>r\<close>, the room has exactly two players and
  every player but the sender is ready already.
\<close>

definition creates :: "event \<Rightarrow> code \<Rightarrow> bool" where
  "creates e k =
     (case e of
        CreateRoom c rnd pn \<Rightarrow> shortRoomId rnd = k
      | FindGame c rnd pn \<Rightarrow> shortRoomId rnd = k
      | _ \<Rightarrow> False)"

definition ready_completes :: "state \<Rightarrow> event \<Rightarrow> code \<Rightarrow> room \<Rightarrow> bool" where
  "ready_completes st e k r =
     (case e of
        PlayerReady c now \<Rightarrow>
          (case conns st c of
             None \<Rightarrow> False
           | Some cn \<Rightarrow>
               roomId cn = Some k \<and> truthy k \<and> map_of (players r) (playerId cn) \<noteq> None \<and>
               length (players r) = 2 \<and>
               list_all (\<lambda>(p, q). p = playerId cn \<or> ready q) (players r))
      | _ \<Rightarrow> False)"

text \<open>What one step can do to the room under one code.\<close>

definition room_step :: "state \<Rightarrow> event \<Rightarrow> state \<Rightarrow> code \<Rightarrow> bool" where
  "room_step st e st' k =
     (rooms st' k = rooms st k \<or>
      (rooms st' k = None) \<or>
      (\<exists>ps. rooms st' k = Some (new_room ps) \<and> creates e k) \<or>
      (\<exists>r r'. rooms st k = Some r \<and> rooms st' k = Some r' \<and> gameStarted r' = gameStarted r) \<or>
      (\<exists>c now cn r r' pl. e = PlayerReady c now \<and> conns st c = Some cn \<and>
         bound_room cn st = Some (k, r) \<and> map_of (players r) (playerId cn) = Some pl \<and>
         rooms st' k = Some r' \<and>
         players r' = obj_set (players r) (playerId cn) (pl\<lparr>ready := True\<rparr>) \<and>
         gameStarted r' = (gameStarted r \<or>
            (list_all (\<lambda>(p, q). ready q) (players r') \<and> length (players r') = 2))))"

text \<open>The run of \<open>started_trace\<close> before its last event: only the host is ready. And the
  started game followed by a paddle move and the disconnection of the second player.\<close>

definition half_ready_trace :: "event list" where
  "half_ready_trace =
     [Connect 0 ''a'', CreateRoom 0 ''0.abcdefgh'' None,
      Connect 1 ''b'', JoinRoom 1 (Some '' abcdef '') None,
      PlayerReady 0 1000]"

definition play_on_trace :: "event list" where
  "play_on_trace = [PaddleMove 0 (Some 10), Disconnect 1]"

text \<open>A client in the lobby sends \<open>join_room\<close> without a room code; then a new client
  connects.\<close>

definition join_without_code_trace :: "event list" where
  "join_without_code_trace = lobby_trace @ [JoinRoom 2 None None, Connect 3 ''d'']"

text \<open>In the started game a client sets the host's score to \<open>2 ^ 53\<close>; then the host
  scores.\<close>

definition big_score_trace :: "event list" where
  "big_score_trace =
     started_trace @ [ScoreUpdateEv 0 (Some [''a'' \<mapsto> 9007199254740992]),
                      PlayerScored 0 (Some ''a'')]"

text \<open>
  Two timers match when they have the same owner and captured player ids and the second is
  active whenever the first is. Two states agree when they have the same rooms, waiting
  list, connections and sent messages and their timers match one by one: the second state
  may have timers still active that the first has cleared.
\<close>

definition same_timer :: "timer \<Rightarrow> timer \<Rightarrow> bool" where
  "same_timer a b = (owner a = owner b \<and> tp0 a = tp0 b \<and> tp1 a = tp1 b \<and>
                     (active a \<longrightarrow> active b))"

definition agree :: "state \<Rightarrow> state \<Rightarrow> bool" where
  "agree s1 s2 = (rooms s1 = rooms s2 \<and> waitingPlayers s1 = waitingPlayers s2 \<and>
     conns s1 = conns s2 \<and> outbox s1 = outbox s2 \<and>
     list_all2 same_timer (timers s1) (timers s2))"

text \<open>
  An event is inbound when it comes from a client: a connection, a message or a
  disconnection, not a tick. An event fires in a state when the runtime can deliver it
  there: a tick fires only for an interval that has been made and not cleared. A sequence
  of events is deliverable from a state when each event fires in the state the Socket.io
  server has reached by then.
\<close>

fun inbound :: "event \<Rightarrow> bool" where
  "inbound (Tick t now) = False"
| "inbound e = True"

fun fires :: "state \<Rightarrow> event \<Rightarrow> bool" where
  "fires st (Tick t now) = (t < length (timers st) \<and> active (timers st ! t))"
| "fires st e = True"

fun deliverable :: "state \<Rightarrow> event list \<Rightarrow> bool" where
  "deliverable st [] = True"
| "deliverable st (e # es) =
     (fires st e \<and>
      (case step SocketIO st e of Inl err \<Rightarrow> True | Inr st' \<Rightarrow> deliverable st' es))"

fun is_disconnect :: "event \<Rightarrow> bool" where
  "is_disconnect (Disconnect c) = True"
| "is_disconnect e = False"

text \<open>The first set of the started game runs out, the second player leaves during the
  rest, and the rest runs out.\<close>

definition match_trace :: "event list" where
  "match_trace = started_trace @ [Tick 0 3000, Tick 0 122000, Disconnect 1, Tick 0 152000]"

section \<open>Addition of doubles\<close>

text \<open>Up to \<open>2 ^ 53\<close> in magnitude an integer is its own double and sums are exact; one added
  to \<open>2 ^ 53\<close> is lost.\<close>

declare bit_length.simps [simp del]

lemma bit_length_le: "n < 2 ^ k \<Longrightarrow> bit_length n \<le> k"
proof (induction k arbitrary: n)
  case 0
  then show ?case by (simp add: bit_length.simps)
next
  case (Suc k)
  show ?case
  proof (cases "n = 0")
    case True
    then show ?thesis by (simp add: bit_length.simps)
  next
    case False
    have "n div 2 < 2 ^ k" using Suc.prems by auto
    from Suc.IH[OF this] False show ?thesis by (simp add: bit_length.simps[of n])
  qed
qed

lemma bit_length_eq: "2 ^ k \<le> n \<Longrightarrow> n < 2 ^ Suc k \<Longrightarrow> bit_length n = Suc k"
proof (induction k arbitrary: n)
  case 0
  then have "n = 1" by simp
  then show ?case by (simp add: bit_length.simps[of "Suc 0"] bit_length.simps[of 0])
next
  case (Suc k)
  have "2 ^ k \<le> n div 2" "n div 2 < 2 ^ Suc k" using Suc.prems by auto
  from Suc.IH[OF this] Suc.prems show ?case by (simp add: bit_length.simps[of n])
qed

lemma to_double_exact:
  assumes "\<bar>n\<bar> \<le> 2 ^ 53"
  shows "to_double n = n"
proof (cases "\<bar>n\<bar> < 2 ^ 53")
  case True
  then have "nat \<bar>n\<bar> < 2 ^ 53" by (simp add: nat_less_iff)
  then have "bit_length (nat \<bar>n\<bar>) - 53 = 0" using bit_length_le by fastforce
  then show ?thesis
    by (simp add: to_double_def Let_def mult_sgn_abs)
next
  case False
  with assms have a: "nat \<bar>n\<bar> = 9007199254740992" by (simp add: nat_eq_iff)
  have bl: "bit_length 9007199254740992 = 54"
    using bit_length_eq[of 53 9007199254740992] by simp
  have "sgn n * int (nat \<bar>n\<bar>) = n" by (simp add: mult_sgn_abs)
  then show ?thesis using a
    by (simp add: to_double_def Let_def bl)
qed

lemma js_add_exact: "\<bar>x + y\<bar> \<le> 2 ^ 53 \<Longrightarrow> js_add x y = x + y"
  by (simp add: js_add_def to_double_exact)

lemma js_add_small [simp]: "js_add 0 1 = 1"
  by (simp add: js_add_exact)

lemma js_add_2_53: "js_add 9007199254740992 1 = 9007199254740992"
proof -
  have "bit_length 9007199254740993 = 54"
    using bit_length_eq[of 53 9007199254740993] by simp
  then show ?thesis by (simp add: js_add_def to_double_def Let_def)
qed

section \<open>Objects as association lists\<close>

text \<open>What assignment and \<open>delete\<close> do to the keys, the length and the hosts of a player
  list.\<close>


lemma keys_obj_set:
  "map fst (obj_set ps k v) = (if map_of ps k = None then map fst ps @ [k] else map fst ps)"
proof (induction ps)
  case Nil
  show ?case by simp
next
  case (Cons a ps)
  obtain k' v' where a: "a = (k', v')" by (cases a)
  show ?case using Cons.IH by (simp add: a)
qed

lemma length_obj_set:
  "length (obj_set ps k v) = (if map_of ps k = None then Suc (length ps) else length ps)"
  using arg_cong[OF keys_obj_set, of length ps k v] by (simp split: if_splits)

lemma distinct_obj_set:
  "distinct (map fst ps) \<Longrightarrow> distinct (map fst (obj_set ps k v))"
  by (simp add: keys_obj_set map_of_eq_None_iff)

lemma hosts_obj_set_nonhost:
  "\<not> isHost v \<Longrightarrow> length (hosts (obj_set ps k v)) \<le> length (hosts ps)"
proof (induction ps)
  case Nil
  then show ?case by (simp add: hosts_def)
next
  case (Cons a ps)
  obtain k' v' where a: "a = (k', v')" by (cases a)
  show ?case using Cons by (simp add: a hosts_def)
qed

lemma hosts_obj_set_same:
  "map_of ps k = Some pl \<Longrightarrow> isHost v = isHost pl \<Longrightarrow>
   length (hosts (obj_set ps k v)) = length (hosts ps)"
proof (induction ps)
  case Nil
  then show ?case by simp
next
  case (Cons a ps)
  obtain k' v' where a: "a = (k', v')" by (cases a)
  show ?case using Cons by (auto simp: a hosts_def split: if_splits)
qed

lemma hosts_obj_delete: "length (hosts (obj_delete ps k)) \<le> length (hosts ps)"
proof -
  have "hosts (obj_delete ps k) = filter (\<lambda>kv. fst kv \<noteq> k) (hosts ps)"
    by (simp add: hosts_def obj_delete_def conj_commute)
  then show ?thesis by simp
qed

lemma length_obj_delete: "length (obj_delete ps k) \<le> length ps"
  by (simp add: obj_delete_def)

lemma distinct_obj_delete:
  "distinct (map fst ps) \<Longrightarrow> distinct (map fst (obj_delete ps k))"
  by (simp add: obj_delete_def distinct_map_filter)

section \<open>Every room is well formed\<close>

text \<open>What the helpers do to the table of rooms.\<close>

lemma rooms_emit [simp]: "rooms (emit c m st) = rooms st"
  by (simp add: emit_def)
lemma rooms_broadcast [simp]: "rooms (broadcast ps f st) = rooms st"
  by (simp add: broadcast_def)
lemma rooms_relay_other [simp]: "rooms (relay_other ps me m st) = rooms st"
  by (simp add: relay_other_def split: option.splits prod.splits)
lemma rooms_set_roomId [simp]: "rooms (set_roomId c cn k st) = rooms st"
  by (simp add: set_roomId_def)
lemma rooms_clearInterval [simp]: "rooms (clearInterval t st) = rooms st"
  by (simp add: clearInterval_def split: option.splits)
lemma rooms_put_room [simp]: "rooms (put_room k r st) = (rooms st)(k \<mapsto> r)"
  by (simp add: put_room_def)
lemma rooms_notify_others [simp]: "rooms (notify_others ps me st) = rooms st"
  by (simp add: notify_others_def)
lemma rooms_delete_room [simp]: "rooms (delete_room k st) = (rooms st)(k := None)"
  by (simp add: delete_room_def)

lemma rooms_ok_upd: "rooms_ok st \<Longrightarrow> rooms st' = (rooms st)(k \<mapsto> r) \<Longrightarrow> room_ok r \<Longrightarrow> rooms_ok st'"
  by (simp add: rooms_ok_def)
lemma rooms_ok_same: "rooms_ok st \<Longrightarrow> rooms st' = rooms st \<Longrightarrow> rooms_ok st'"
  by (simp add: rooms_ok_def)
lemma rooms_ok_del: "rooms_ok st \<Longrightarrow> rooms st' = (rooms st)(k := None) \<Longrightarrow> rooms_ok st'"
  by (simp add: rooms_ok_def)

lemma bound_room_Some: "bound_room cn st = Some (k, r) \<Longrightarrow> rooms st k = Some r \<and> roomId cn = Some k \<and> k \<noteq> []"
  by (auto simp: bound_room_def truthy_def split: option.splits if_splits)

text \<open>Every handler, the disconnection and the tick keep the rooms well formed.\<close>

lemma room_ok_new1: "room_ok (new_room [(p, v)])"
  by (simp add: room_ok_def new_room_def hosts_def)

lemma create_room_ok: "rooms_ok st \<Longrightarrow> create_room c cn rnd pn st = Inr st' \<Longrightarrow> rooms_ok st'"
  unfolding create_room_def Let_def
  by (erule rooms_ok_upd[where k="shortRoomId rnd"]) (auto simp: room_ok_new1)

lemma room_ok_join:
  "room_ok r \<Longrightarrow> length (players r) < 2 \<Longrightarrow> \<not> isHost v \<Longrightarrow>
   room_ok (r\<lparr>players := obj_set (players r) p v\<rparr>)"
  using hosts_obj_set_nonhost[of v "players r" p]
  by (simp add: room_ok_def length_obj_set distinct_obj_set)

lemma join_room_ok:
  assumes "rooms_ok st" "join_room c cn rid pn st = Inr st'"
  shows "rooms_ok st'"
proof (cases rid)
  case None
  with assms show ?thesis by (simp add: join_room_def)
next
  case (Some s)
  show ?thesis
  proof (cases "rooms st (normalize_code s)")
    case None
    with assms Some have "rooms st' = rooms st" by (auto simp: join_room_def)
    with assms show ?thesis by (simp add: rooms_ok_same)
  next
    case (Some r)
    note r = this
    show ?thesis
    proof (cases "length (players r) \<ge> 2")
      case True
      with assms \<open>rid = Some s\<close> r have "rooms st' = rooms st" by (auto simp: join_room_def Let_def)
      with assms show ?thesis by (simp add: rooms_ok_same)
    next
      case False
      let ?r' = "r\<lparr>players := obj_set (players r) (playerId cn)
         \<lparr>socketId = c, ready = False, isHost = False, name = name_or_default pn\<rparr>\<rparr>"
      from assms \<open>rid = Some s\<close> r False
      have "rooms st' = (rooms st)(normalize_code s \<mapsto> ?r')"
        by (auto simp: join_room_def Let_def split: option.splits prod.splits)
      moreover have "room_ok ?r'" using assms(1) r False by (intro room_ok_join) (auto simp: rooms_ok_def)
      ultimately show ?thesis using assms(1) by (rule_tac rooms_ok_upd)
    qed
  qed
qed


lemma room_ok_new2:
  "p \<noteq> q \<Longrightarrow> \<not> isHost w \<Longrightarrow> room_ok (new_room [(p, v), (q, w)])"
  by (simp add: room_ok_def new_room_def hosts_def)

lemma find_first_other:
  "find (\<lambda>(p, w). p \<noteq> me) wp = Some (q, ow) \<Longrightarrow> q \<noteq> me"
  by (auto simp: find_Some_iff)

lemma find_game_rooms:
  assumes "find_game c cn rnd pn st = Inr st'"
  shows "rooms st' = rooms st \<or>
         (\<exists>q v w. q \<noteq> playerId cn \<and> \<not> isHost w \<and>
            rooms st' = (rooms st)(shortRoomId rnd \<mapsto> new_room [(playerId cn, v), (q, w)]))"
proof -
  let ?wp = "obj_set (waitingPlayers st) (playerId cn)
               \<lparr>w_socketId = c, w_name = name_or_default pn\<rparr>"
  show ?thesis
  proof (cases "length ?wp \<ge> 2")
    case False
    with assms have "rooms st' = rooms st" by (auto simp: find_game_def Let_def)
    then show ?thesis ..
  next
    case True
    show ?thesis
    proof (cases "find (\<lambda>(p, w). p \<noteq> playerId cn) ?wp")
      case None
      with assms True have "rooms st' = rooms st" by (auto simp: find_game_def Let_def)
      then show ?thesis ..
    next
      case (Some a)
      obtain q ow where a: "a = (q, ow)" by (cases a)
      have q: "q \<noteq> playerId cn" using Some a by (auto dest: find_first_other)
      show ?thesis
      proof (cases "truthy q")
        case False
        with assms True Some a have "rooms st' = rooms st" by (auto simp: find_game_def Let_def)
        then show ?thesis ..
      next
        case t: True
        let ?v = "\<lparr>socketId = c, ready = False, isHost = True, name = name_or_default pn\<rparr>"
        let ?w = "\<lparr>socketId = w_socketId ow, ready = False, isHost = False, name = w_name ow\<rparr>"
        from assms True Some a t q
        have "rooms st' = (rooms st)(shortRoomId rnd \<mapsto> new_room [(playerId cn, ?v), (q, ?w)])"
          by (auto simp: find_game_def Let_def)
        moreover have "\<not> isHost ?w" by simp
        ultimately show ?thesis using q by blast
      qed
    qed
  qed
qed

lemma find_game_ok: "rooms_ok st \<Longrightarrow> find_game c cn rnd pn st = Inr st' \<Longrightarrow> rooms_ok st'"
  using find_game_rooms[of c cn rnd pn st st']
  by (auto intro: rooms_ok_same rooms_ok_upd room_ok_new2)

lemma inplaceI: "rooms st k = Some r \<Longrightarrow> rooms st' = (rooms st)(k \<mapsto> r') \<Longrightarrow> keeps r r' \<Longrightarrow> inplace st st'"
  by (auto simp: inplace_def)

lemma inplace_same: "rooms st' = rooms st \<Longrightarrow> inplace st st'"
  by (auto simp: inplace_def)

lemma keeps_ok: "keeps r r' \<Longrightarrow> room_ok r \<Longrightarrow> room_ok r'"
  unfolding keeps_def room_ok_def by simp

lemma inplace_ok: "inplace st st' \<Longrightarrow> rooms_ok st \<Longrightarrow> rooms_ok st'"
  unfolding inplace_def
  by (auto intro: rooms_ok_same) (metis keeps_ok rooms_ok_def rooms_ok_upd)

lemma keeps_gameState [simp]: "keeps r (r\<lparr>gameState := g\<rparr>)"
  by (simp add: keeps_def)
lemma keeps_matchState [simp]: "keeps r (set_matchState ms r)"
  by (simp add: keeps_def set_matchState_def)
lemma keeps_gs_ms [simp]: "keeps r (r\<lparr>gameState := g, matchState := m\<rparr>)"
  by (simp add: keeps_def)

lemma paddle_move_inplace: "paddle_move c cn y st = Inr st' \<Longrightarrow> inplace st st'"
  unfolding paddle_move_def Let_def
  by (auto split: option.splits if_splits prod.splits dest!: bound_room_Some
      intro: inplace_same inplaceI[where r'="r\<lparr>gameState := g\<rparr>" for r g])

lemma ball_update_inplace: "ball_update c cn b st = Inr st' \<Longrightarrow> inplace st st'"
  unfolding ball_update_def Let_def
  by (auto split: option.splits if_splits prod.splits dest!: bound_room_Some
      intro: inplace_same inplaceI[where r'="r\<lparr>gameState := g\<rparr>" for r g])

lemma score_update_inplace: "score_update c cn sc st = Inr st' \<Longrightarrow> inplace st st'"
  unfolding score_update_def Let_def
  by (auto split: option.splits if_splits prod.splits dest!: bound_room_Some
      intro: inplace_same inplaceI[where r'="r\<lparr>gameState := g\<rparr>" for r g])

lemma player_scored_inplace: "player_scored c cn sp st = Inr st' \<Longrightarrow> inplace st st'"
  unfolding player_scored_def Let_def
  by (auto split: option.splits if_splits prod.splits dest!: bound_room_Some
      intro: inplace_same inplaceI[where r'="r\<lparr>gameState := g\<rparr>" for r g])

lemma timer_body_inplace: "rooms st k = Some r \<Longrightarrow> inplace st (timer_body tm k r ms now st)"
  unfolding timer_body_def Let_def
  by (auto intro: inplaceI[where r'="set_matchState m r" for m] inplaceI[where r'="r\<lparr>gameState := g, matchState := m\<rparr>" for g m])

lemma tick_inplace: "tick t now st = Inr st' \<Longrightarrow> inplace st st'"
  unfolding tick_def Let_def
  by (auto split: option.splits if_splits intro: inplace_same timer_body_inplace)


lemma players_started_room [simp]: "players (started_room r ps now t) = ps"
  by (simp add: started_room_def Let_def)
lemma gameStarted_started_room [simp]: "gameStarted (started_room r ps now t)"
  by (simp add: started_room_def Let_def)

lemma start_game_rooms [simp]:
  "rooms (start_game c k r ps now st) = (rooms st)(k \<mapsto> started_room r ps now (length (timers st)))"
  by (simp add: start_game_def Let_def)

lemma player_ready_rooms:
  assumes "player_ready c cn now st = Inr st'"
  shows "rooms st' = rooms st \<or>
     (\<exists>k r r' pl. bound_room cn st = Some (k, r) \<and> map_of (players r) (playerId cn) = Some pl \<and>
        rooms st' = (rooms st)(k \<mapsto> r') \<and>
        players r' = obj_set (players r) (playerId cn) (pl\<lparr>ready := True\<rparr>) \<and>
        gameStarted r' = (gameStarted r \<or>
           (list_all (\<lambda>(p, q). ready q) (players r') \<and> length (players r') = 2)))"
proof (cases "bound_room cn st")
  case None
  with assms show ?thesis by (simp add: player_ready_def)
next
  case (Some a)
  obtain k r where a: "a = (k, r)" by (cases a)
  show ?thesis
  proof (cases "map_of (players r) (playerId cn)")
    case None
    with assms Some a show ?thesis by (simp add: player_ready_def)
  next
    case pl: (Some pl)
    let ?ps = "obj_set (players r) (playerId cn) (pl\<lparr>ready := True\<rparr>)"
    show ?thesis
    proof (cases "list_all (\<lambda>(p, q). ready q) ?ps \<and> length ?ps = 2")
      case True
      with assms Some a pl have st': "st' = start_game c k r ?ps now st"
        by (simp add: player_ready_def Let_def)
      let ?r' = "started_room r ?ps now (length (timers st))"
      have "rooms st' = (rooms st)(k \<mapsto> ?r')" by (simp add: st')
      with Some a pl True show ?thesis
        by (intro disjI2 exI[of _ k] exI[of _ r] exI[of _ ?r'] exI[of _ pl]) auto
    next
      case False
      with assms Some a pl have st': "st' = put_room k (r\<lparr>players := ?ps\<rparr>) st"
        by (auto simp: player_ready_def Let_def)
      have "rooms st' = (rooms st)(k \<mapsto> r\<lparr>players := ?ps\<rparr>)" by (simp add: st')
      with Some a pl False show ?thesis
        by (intro disjI2 exI[of _ k] exI[of _ r] exI[of _ "r\<lparr>players := ?ps\<rparr>"] exI[of _ pl]) auto
    qed
  qed
qed

lemma keys_obj_set_present:
  "map_of ps k = Some v \<Longrightarrow> map fst (obj_set ps k w) = map fst ps"
  by (simp add: keys_obj_set)

lemma player_ready_ok:
  assumes "rooms_ok st" "player_ready c cn now st = Inr st'"
  shows "rooms_ok st'"
proof -
  from player_ready_rooms[OF assms(2)]
  consider "rooms st' = rooms st"
    | k r r' pl where "bound_room cn st = Some (k, r)" "map_of (players r) (playerId cn) = Some pl"
        "rooms st' = (rooms st)(k \<mapsto> r')"
        "players r' = obj_set (players r) (playerId cn) (pl\<lparr>ready := True\<rparr>)"
    by blast
  then show ?thesis
  proof cases
    case 1
    with assms show ?thesis by (simp add: rooms_ok_same)
  next
    case 2
    have "room_ok r" using assms(1) 2(1) by (auto simp: rooms_ok_def dest!: bound_room_Some)
    moreover have "map fst (players r') = map fst (players r)"
      using 2 by (simp add: keys_obj_set_present)
    moreover have "length (hosts (players r')) = length (hosts (players r))"
      using 2 by (simp add: hosts_obj_set_same)
    ultimately have "room_ok r'" unfolding room_ok_def by (metis length_map)
    with assms(1) 2(3) show ?thesis by (rule rooms_ok_upd)
  qed
qed

lemma bound_room_wp [simp]: "bound_room cn (st\<lparr>waitingPlayers := w\<rparr>) = bound_room cn st"
  by (simp add: bound_room_def split: option.splits)

lemma disconnect_sio_rooms:
  assumes "disconnect_sio c cn st = st'"
  shows "rooms st' = rooms st \<or>
     (\<exists>k r. bound_room cn st = Some (k, r) \<and>
        (if obj_delete (players r) (playerId cn) = [] then rooms st' = (rooms st)(k := None)
         else rooms st' = (rooms st)(k \<mapsto> r\<lparr>players := obj_delete (players r) (playerId cn)\<rparr>)))"
proof (cases "bound_room cn st")
  case None
  with assms show ?thesis by (auto simp: disconnect_sio_def Let_def)
next
  case (Some a)
  obtain k r where a: "a = (k, r)" by (cases a)
  from assms Some a show ?thesis
    by (intro disjI2 exI[of _ k] exI[of _ r]) (auto simp: disconnect_sio_def Let_def)
qed

lemma close_ws_rooms:
  assumes "close_ws c cn st = st'"
  shows "rooms st' = rooms st \<or>
     (\<exists>k r. bound_room cn st = Some (k, r) \<and>
        (if obj_delete (players r) (playerId cn) = [] then rooms st' = (rooms st)(k := None)
         else rooms st' = (rooms st)(k \<mapsto> r\<lparr>players := obj_delete (players r) (playerId cn)\<rparr>)))"
proof (cases "bound_room cn st")
  case None
  with assms show ?thesis by (auto simp: close_ws_def Let_def)
next
  case (Some a)
  obtain k r where a: "a = (k, r)" by (cases a)
  from assms Some a show ?thesis
    by (intro disjI2 exI[of _ k] exI[of _ r]) (auto simp: close_ws_def Let_def)
qed

lemma room_ok_delete: "room_ok r \<Longrightarrow> room_ok (r\<lparr>players := obj_delete (players r) p\<rparr>)"
  unfolding room_ok_def using length_obj_delete[of "players r" p] hosts_obj_delete[of "players r" p]
  by (simp add: distinct_obj_delete)

lemma disconnect_shape_ok:
  assumes "rooms_ok st"
    and "rooms st' = rooms st \<or>
     (\<exists>k r. bound_room cn st = Some (k, r) \<and>
        (if obj_delete (players r) p = [] then rooms st' = (rooms st)(k := None)
         else rooms st' = (rooms st)(k \<mapsto> r\<lparr>players := obj_delete (players r) p\<rparr>)))"
  shows "rooms_ok st'"
  using assms
  by (auto split: if_splits dest!: bound_room_Some intro: rooms_ok_same rooms_ok_del)
     (metis room_ok_delete rooms_ok_def rooms_ok_upd)



lemma connect_rooms [simp]: "rooms (connect c p st) = rooms st"
  by (simp add: connect_def split: option.splits)

lemma handle_ok:
  assumes "rooms_ok st" "handle e c cn st = Inr st'"
  shows "rooms_ok st'"
proof (cases e)
  case (CreateRoom c' rnd pn)
  with assms show ?thesis by (auto intro: create_room_ok)
next
  case (JoinRoom c' rid pn)
  with assms show ?thesis by (auto intro: join_room_ok)
next
  case (FindGame c' rnd pn)
  with assms show ?thesis by (auto intro: find_game_ok)
next
  case (PlayerReady c' now)
  with assms show ?thesis by (auto intro: player_ready_ok)
next
  case (PaddleMove c' y)
  with assms show ?thesis by (auto intro: inplace_ok[OF paddle_move_inplace])
next
  case (BallUpdateEv c' b)
  with assms show ?thesis by (auto intro: inplace_ok[OF ball_update_inplace])
next
  case (ScoreUpdateEv c' sc)
  with assms show ?thesis by (auto intro: inplace_ok[OF score_update_inplace])
next
  case (PlayerScored c' sp)
  with assms show ?thesis by (auto intro: inplace_ok[OF player_scored_inplace])
qed (use assms in auto)


lemma step_ok:
  assumes "rooms_ok st" "step sv st e = Inr st'"
  shows "rooms_ok st'"
proof (cases "\<exists>c p. e = Connect c p")
  case True
  with assms show ?thesis by (auto simp: step_def rooms_ok_def)
next
  case nc: False
  show ?thesis
  proof (cases "\<exists>t now. e = Tick t now")
    case True
    with assms show ?thesis by (auto simp: step_def intro: inplace_ok[OF tick_inplace])
  next
    case nt: False
    show ?thesis
    proof (cases "\<exists>c. e = Disconnect c")
      case True
      then obtain c where e: "e = Disconnect c" by blast
      show ?thesis
      proof (cases "conns st c")
        case None
        with assms e show ?thesis by (simp add: step_def)
      next
        case (Some cn)
        with assms e show ?thesis
          by (cases sv)
             (auto simp: step_def
               intro: disconnect_shape_ok[OF _ disconnect_sio_rooms] disconnect_shape_ok[OF _ close_ws_rooms])
      qed
    next
      case nd: False
      show ?thesis
      proof (cases "sender e")
        case None
        with assms nc nt nd show ?thesis by (cases e) (auto simp: step_def)
      next
        case (Some c)
        show ?thesis
        proof (cases "conns st c")
          case None
          with assms nc nt nd Some show ?thesis by (cases e) (auto simp: step_def)
        next
          case cn: (Some cn)
          have "handle e c cn st = Inr st' \<or> st' = st"
            using assms(2) nc nt nd Some cn
            by (cases e; cases sv)
               (auto simp: step_def on_event_sio_def on_message_ws_def split: sum.splits)
          with assms(1) show ?thesis by (auto intro: handle_ok)
        qed
      qed
    qed
  qed
qed

lemma run_ok: "rooms_ok st \<Longrightarrow> run sv st es = Inr st' \<Longrightarrow> rooms_ok st'"
proof (induction es arbitrary: st)
  case Nil
  then show ?case by simp
next
  case (Cons e es)
  then show ?case by (auto split: sum.splits intro: step_ok)
qed

lemma init_ok: "rooms_ok init"
  by (simp add: rooms_ok_def init_def)

section \<open>Example runs\<close>

text \<open>The definitions a run on concrete events unfolds.\<close>

lemmas ev = step_def init_def connect_def emit_def on_event_sio_def on_message_ws_def create_room_def join_room_def
   shortRoomId_def substring_def toUpperCase_def upper_char_def normalize_code_def trim_def is_space_def
   name_or_default_def truthy_def new_room_def set_roomId_def Let_def

lemmas ev2 = player_ready_def bound_room_def start_game_def started_room_def broadcast_def put_room_def
  initial_gameState_def

lemma lobby_run:
  "\<exists>st r. run sv init lobby_trace = Inr st \<and>
     conns st 2 = Some \<lparr>playerId = ''c'', roomId = None\<rparr> \<and>
     rooms st ''ABCDEF'' = Some r \<and>
     players r = [(''a'', \<lparr>socketId = 0, ready = False, isHost = True, name = ''Player''\<rparr>),
                  (''b'', \<lparr>socketId = 1, ready = False, isHost = False, name = ''Player''\<rparr>)]"
  by (cases sv) (simp_all add: lobby_trace_def ev)

lemma started_run:
  "\<exists>st r ms. run sv init started_trace = Inr st \<and>
     conns st 0 = Some \<lparr>playerId = ''a'', roomId = Some ''ABCDEF''\<rparr> \<and>
     conns st 1 = Some \<lparr>playerId = ''b'', roomId = Some ''ABCDEF''\<rparr> \<and>
     rooms st ''ABCDEF'' = Some r \<and>
     players r = [(''a'', \<lparr>socketId = 0, ready = True, isHost = True, name = ''Player''\<rparr>),
                  (''b'', \<lparr>socketId = 1, ready = True, isHost = False, name = ''Player''\<rparr>)] \<and>
     gameStarted r \<and> matchTimer r = Some 0 \<and> matchState r = Some ms \<and>
     currentSet ms = 1 \<and> timeRemaining ms = 120 \<and> \<not> isRestPeriod ms \<and> lastUpdateTime ms = 2000 \<and>
     scores (gameState r) = [''a'' \<mapsto> 0, ''b'' \<mapsto> 0] \<and>
     timers st = [\<lparr>owner = 1, tp0 = ''a'', tp1 = ''b'', active = True\<rparr>]"
  by (cases sv) (simp_all add: started_trace_def ev ev2)

section \<open>Room capacity\<close>

lemma join_room_effect:
  "\<exists>st'. join_room c cn (Some s) pn st = Inr st' \<and> waitingPlayers st' = waitingPlayers st \<and>
     (case rooms st (normalize_code s) of
        None \<Rightarrow> rooms st' = rooms st \<and> outbox st' = outbox st @ [(c, ErrorMsg ''Room not found'')]
      | Some r \<Rightarrow>
          if length (players r) \<ge> 2
          then rooms st' = rooms st \<and> outbox st' = outbox st @ [(c, ErrorMsg ''Room is full'')]
          else rooms st' = (rooms st)(normalize_code s \<mapsto>
                 r\<lparr>players := obj_set (players r) (playerId cn)
                      \<lparr>socketId = c, ready = False, isHost = False, name = name_or_default pn\<rparr>\<rparr>))"
  by (auto simp: join_room_def Let_def emit_def set_roomId_def split: option.splits prod.splits)




section \<open>Room codes\<close>

text \<open>
  A room code has at most six characters, and six when the text of the random number has
  six digits after the point. Its characters are digits and capital letters. \<open>join_room\<close>
  looks up the trimmed, upper-cased code: joining with a code and with its normal form is
  the same.
\<close>

lemma length_shortRoomId: "length (shortRoomId rnd) = min 6 (length rnd - 2)"
  by (simp add: shortRoomId_def substring_def toUpperCase_def)

lemma shortRoomId_at_most_six: "length (shortRoomId rnd) \<le> 6"
  by (simp add: length_shortRoomId)

lemma shortRoomId_six: "8 \<le> length rnd \<Longrightarrow> length (shortRoomId rnd) = 6"
  by (simp add: length_shortRoomId)

lemma upper_char_code: "base36_digit c \<Longrightarrow> code_char (upper_char c)"
  unfolding base36_digit_def code_char_def upper_char_def by (simp, elim disjE) simp_all

lemma shortRoomId_chars:
  assumes "unit_rendering rnd"
  shows "list_all code_char (shortRoomId rnd)"
proof (cases "rnd = ''0''")
  case True
  then show ?thesis by (simp add: shortRoomId_def substring_def toUpperCase_def)
next
  case False
  with assms have "list_all base36_digit (drop 2 rnd)" by (simp add: unit_rendering_def)
  then have "list_all base36_digit (take 6 (drop 2 rnd))"
    by (auto simp: list_all_iff dest: in_set_takeD)
  then show ?thesis
    by (simp add: shortRoomId_def substring_def toUpperCase_def list_all_iff upper_char_code)
qed

lemma upper_char_idem: "upper_char (upper_char c) = upper_char c"
  unfolding upper_char_def by (simp split: if_splits)

lemma is_space_upper: "is_space (upper_char c) = is_space c"
  unfolding upper_char_def is_space_def by (simp split: if_splits)

lemma dropWhile_upper:
  "dropWhile is_space (map upper_char s) = map upper_char (dropWhile is_space s)"
  by (induction s) (simp_all add: is_space_upper)

lemma trim_toUpperCase: "trim (toUpperCase s) = toUpperCase (trim s)"
  by (simp add: trim_def toUpperCase_def dropWhile_upper rev_map)

lemma dropWhile_rev_dropWhile:
  "dropWhile P (rev (dropWhile P (rev (dropWhile P s)))) = rev (dropWhile P (rev (dropWhile P s)))"
proof (cases "dropWhile P (rev (dropWhile P s))")
  case Nil
  show ?thesis unfolding Nil by simp
next
  case (Cons a u)
  let ?t = "dropWhile P s"
  have "rev ?t = takeWhile P (rev ?t) @ a # u"
    using takeWhile_dropWhile_id[of P "rev ?t"] Cons by simp
  then have t: "?t = rev u @ a # rev (takeWhile P (rev ?t))"
    by (metis rev_append rev.simps(2) rev_rev_ident append_Cons append_Nil append_assoc)
  then have ne: "?t \<noteq> []" by (metis Nil_is_append_conv list.distinct(1))
  then have "\<not> P (hd ?t)" by (rule hd_dropWhile)
  moreover have "hd ?t = hd (rev u @ [a])"
    using t by (metis append_Cons append_Nil append_assoc hd_append2 snoc_eq_iff_butlast)
  ultimately have "\<not> P (hd (rev (a # u)))" by simp
  then have "dropWhile P (rev (a # u)) = rev (a # u)"
    by (cases "rev (a # u)") auto
  with Cons show ?thesis by simp
qed

lemma trim_idem: "trim (trim s) = trim s"
proof -
  let ?u = "dropWhile is_space (rev (dropWhile is_space s))"
  have "trim (trim s) = rev (dropWhile is_space (rev (dropWhile is_space (rev ?u))))"
    by (simp add: trim_def)
  also have "dropWhile is_space (rev ?u) = rev ?u"
    by (rule dropWhile_rev_dropWhile)
  also have "dropWhile is_space (rev (rev ?u)) = ?u"
    by (simp add: dropWhile_idem)
  finally show ?thesis by (simp add: trim_def)
qed

lemma toUpperCase_idem: "toUpperCase (toUpperCase s) = toUpperCase s"
  by (simp add: toUpperCase_def upper_char_idem)

lemma normalize_code_idem: "normalize_code (normalize_code s) = normalize_code s"
  by (simp add: normalize_code_def trim_toUpperCase trim_idem toUpperCase_idem)

lemma join_room_normalizes:
  "join_room c cn (Some s) pn st = join_room c cn (Some (normalize_code s)) pn st"
  by (simp add: join_room_def normalize_code_idem)

text \<open>
  C8. The text of one half in base 36 is \<open>0.i\<close>, and the room code made from it is the one
  character \<open>I\<close>, not six characters.
\<close>

theorem shortRoomId_one_char:
  "unit_rendering ''0.i'' \<and> shortRoomId ''0.i'' = ''I'' \<and> length (shortRoomId ''0.i'') = 1"
  by (simp add: unit_rendering_def base36_digit_def shortRoomId_def substring_def
        toUpperCase_def upper_char_def)

section \<open>Ball, scores and the binding of a rejected join\<close>

lemma bound_roomI:
  "roomId cn = Some k \<Longrightarrow> k \<noteq> [] \<Longrightarrow> rooms st k = Some r \<Longrightarrow> bound_room cn st = Some (k, r)"
  by (simp add: bound_room_def truthy_def)

lemma outbox_relay_other:
  "outbox (relay_other ps me m st) =
     outbox st @ (case find (\<lambda>(p, pl). p \<noteq> me) ps of None \<Rightarrow> [] | Some (q, ql) \<Rightarrow> [(socketId ql, m)])"
  by (simp add: relay_other_def emit_def split: option.splits prod.splits)

lemma relay_other_frame [simp]:
  "waitingPlayers (relay_other ps me m st) = waitingPlayers st"
  "conns (relay_other ps me m st) = conns st"
  "timers (relay_other ps me m st) = timers st"
  by (simp_all add: relay_other_def emit_def split: option.splits prod.splits)

lemma put_room_frame [simp]:
  "waitingPlayers (put_room k r st) = waitingPlayers st"
  "conns (put_room k r st) = conns st"
  "timers (put_room k r st) = timers st"
  "outbox (put_room k r st) = outbox st"
  by (simp_all add: put_room_def)

lemma broadcast_frame [simp]:
  "waitingPlayers (broadcast ps f st) = waitingPlayers st"
  "conns (broadcast ps f st) = conns st"
  "timers (broadcast ps f st) = timers st"
  "outbox (broadcast ps f st) = outbox st @ map (\<lambda>(p, pl). (socketId pl, f p)) ps"
  by (simp_all add: broadcast_def)

lemma find_SomeD: "find P xs = Some x \<Longrightarrow> P x \<and> x \<in> set xs"
  by (induction xs) (auto split: if_splits)

lemma other_member_not_host:
  assumes "room_ok r" "map_of (players r) me = Some pl" "isHost pl"
    and "find (\<lambda>(p, q). p \<noteq> me) (players r) = Some (q, ql)"
  shows "\<not> isHost ql"
proof
  assume h: "isHost ql"
  have q: "q \<noteq> me" "(q, ql) \<in> set (players r)"
    using find_SomeD[OF assms(4)] by auto
  have m: "(me, pl) \<in> set (players r)" using assms(2) by (rule map_of_SomeD)
  have "{(me, pl), (q, ql)} \<subseteq> set (hosts (players r))"
    using q m h assms(3) by (auto simp: hosts_def)
  then have "card {(me, pl), (q, ql)} \<le> card (set (hosts (players r)))"
    by (intro card_mono) auto
  also have "\<dots> \<le> length (hosts (players r))" by (rule card_length)
  also have "\<dots> \<le> 1" using assms(1) by (simp add: room_ok_def)
  finally show False using q by simp
qed

text \<open>
  C6. Take a state some run reaches, a connection bound to a room and a player of that
  room under the connection's id. When the game has not started or the player is not the
  host, \<open>ball_update\<close> returns the state as it was: the ball is unchanged and nothing is
  sent. When the game has started and the player is the host, \<open>ball_update\<close> replaces the
  ball of that room, changes no other part of the state, and sends \<open>ball_update\<close> to the
  first other player of the room, who is not a host; it sends nothing when the host is
  alone.
\<close>

theorem ball_update_host_only:
  assumes "run sv init es = Inr st" and "conns st c = Some cn"
    and "roomId cn = Some k" and "rooms st k = Some r"
    and "map_of (players r) (playerId cn) = Some pl"
  shows "(\<not> (gameStarted r \<and> isHost pl) \<longrightarrow> ball_update c cn b st = Inr st) \<and>
         (gameStarted r \<and> isHost pl \<and> k \<noteq> [] \<longrightarrow>
            (\<exists>st'. ball_update c cn b st = Inr st' \<and>
               rooms st' = (rooms st)(k \<mapsto> r\<lparr>gameState := (gameState r)\<lparr>gs_ball := b\<rparr>\<rparr>) \<and>
               waitingPlayers st' = waitingPlayers st \<and> conns st' = conns st \<and>
               timers st' = timers st \<and>
               (case find (\<lambda>(p, q). p \<noteq> playerId cn) (players r) of
                  None \<Rightarrow> outbox st' = outbox st
                | Some (q, ql) \<Rightarrow> outbox st' = outbox st @ [(socketId ql, BallUpdate b)] \<and>
                                  \<not> isHost ql)))"
proof (intro conjI impI)
  assume "\<not> (gameStarted r \<and> isHost pl)"
  with assms(3-5) show "ball_update c cn b st = Inr st"
    by (auto simp: ball_update_def bound_room_def split: option.splits)
next
  assume h: "gameStarted r \<and> isHost pl \<and> k \<noteq> []"
  have br: "bound_room cn st = Some (k, r)" using assms(3,4) h by (simp add: bound_roomI)
  have ok: "room_ok r" using run_ok[OF init_ok assms(1)] assms(4) by (auto simp: rooms_ok_def)
  let ?st' = "relay_other (players r) (playerId cn) (BallUpdate b)
                (put_room k (r\<lparr>gameState := (gameState r)\<lparr>gs_ball := b\<rparr>\<rparr>) st)"
  have 1: "ball_update c cn b st = Inr ?st'"
    using br assms(5) h by (simp add: ball_update_def)
  have 2: "case find (\<lambda>(p, q). p \<noteq> playerId cn) (players r) of
                  None \<Rightarrow> outbox ?st' = outbox st
                | Some (q, ql) \<Rightarrow> outbox ?st' = outbox st @ [(socketId ql, BallUpdate b)] \<and>
                                  \<not> isHost ql"
    using other_member_not_host[OF ok assms(5)] h
    by (auto simp: outbox_relay_other split: option.splits)
  show "\<exists>st'. ball_update c cn b st = Inr st' \<and>
               rooms st' = (rooms st)(k \<mapsto> r\<lparr>gameState := (gameState r)\<lparr>gs_ball := b\<rparr>\<rparr>) \<and>
               waitingPlayers st' = waitingPlayers st \<and> conns st' = conns st \<and>
               timers st' = timers st \<and>
               (case find (\<lambda>(p, q). p \<noteq> playerId cn) (players r) of
                  None \<Rightarrow> outbox st' = outbox st
                | Some (q, ql) \<Rightarrow> outbox st' = outbox st @ [(socketId ql, BallUpdate b)] \<and>
                                  \<not> isHost ql)"
    using 1 2 by (intro exI[of _ ?st']) simp
qed

theorem ball_update_host_only_witness:
  "\<exists>st cn0 cn1 r.
     run SocketIO init started_trace = Inr st \<and>
     conns st 0 = Some cn0 \<and> conns st 1 = Some cn1 \<and> rooms st ''ABCDEF'' = Some r \<and>
     ball_update 1 cn1 (Some \<lparr>ball_x = 1, ball_y = 2, speedX = 3, speedY = 4\<rparr>) st = Inr st \<and>
     (\<exists>st'. ball_update 0 cn0 (Some \<lparr>ball_x = 1, ball_y = 2, speedX = 3, speedY = 4\<rparr>) st = Inr st' \<and>
        rooms st' = (rooms st)(''ABCDEF'' \<mapsto> r\<lparr>gameState := (gameState r)
           \<lparr>gs_ball := Some \<lparr>ball_x = 1, ball_y = 2, speedX = 3, speedY = 4\<rparr>\<rparr>\<rparr>) \<and>
        outbox st' = outbox st @
           [(1, BallUpdate (Some \<lparr>ball_x = 1, ball_y = 2, speedX = 3, speedY = 4\<rparr>))])"
proof -
  let ?b = "Some \<lparr>ball_x = 1, ball_y = 2, speedX = 3, speedY = 4\<rparr>"
  let ?pa = "\<lparr>socketId = 0, ready = True, isHost = True, name = ''Player''\<rparr>"
  let ?pb = "\<lparr>socketId = 1, ready = True, isHost = False, name = ''Player''\<rparr>"
  obtain st r where st: "run SocketIO init started_trace = Inr st"
    "conns st 0 = Some \<lparr>playerId = ''a'', roomId = Some ''ABCDEF''\<rparr>"
    "conns st 1 = Some \<lparr>playerId = ''b'', roomId = Some ''ABCDEF''\<rparr>"
    "rooms st ''ABCDEF'' = Some r"
    "players r = [(''a'', ?pa), (''b'', ?pb)]" "gameStarted r"
    using started_run[of SocketIO] by blast
  have n: "ball_update 1 \<lparr>playerId = ''b'', roomId = Some ''ABCDEF''\<rparr> ?b st = Inr st"
    using ball_update_host_only[where pl="?pb" and b="?b", OF st(1) st(3) _ st(4)] st(5)
    by simp
  have h: "\<exists>st'. ball_update 0 \<lparr>playerId = ''a'', roomId = Some ''ABCDEF''\<rparr> ?b st = Inr st' \<and>
        rooms st' = (rooms st)(''ABCDEF'' \<mapsto> r\<lparr>gameState := (gameState r)\<lparr>gs_ball := ?b\<rparr>\<rparr>) \<and>
        outbox st' = outbox st @ [(1, BallUpdate ?b)]"
    using ball_update_host_only[where pl="?pa" and b="?b", OF st(1) st(2) _ st(4)] st(5,6)
    by auto
  from st n h show ?thesis by blast
qed

lemma bound_room_put_same:
  "bound_room cn st = Some (k, r) \<Longrightarrow> rooms (put_room k r' st) k = Some r'"
  by simp

text \<open>
  The host's score is set to \<open>2 ^ 53\<close> by a \<open>score_update\<close>. A \<open>player_scored\<close> for the host
  then leaves it at \<open>2 ^ 53\<close>: the sum is rounded back, and the score has not grown by one.
\<close>

theorem player_scored_no_increment:
  "live_score (run SocketIO init big_score_trace) ''ABCDEF'' ''a'' = Some 9007199254740992 \<and>
   live_score (run SocketIO init (butlast big_score_trace)) ''ABCDEF'' ''a'' =
     Some 9007199254740992"
  by (simp add: live_score_def big_score_trace_def started_trace_def ev ev2 score_update_def
        player_scored_def js_add_2_53)

text \<open>
  C9, as the code has it. For a connection bound to a room, \<open>score_update\<close> with a score
  map writes the map over the live scores, and \<open>player_scored\<close> naming a player of the room
  replaces that player's live score by the sum, in doubles, of the score (zero when it had
  none) and one: that is the score raised by exactly one whenever the score is below
  \<open>2 ^ 53\<close> in magnitude. Each handler then sends one \<open>score_update\<close> to every player of the
  room, in the order of the players, and every one of them carries the whole live score
  map of the room after the change.
\<close>

theorem score_events_broadcast:
  assumes "bound_room cn st = Some (k, r)"
  shows "(\<exists>st' r'. score_update c cn (Some ds) st = Inr st' \<and> rooms st' k = Some r' \<and>
            players r' = players r \<and>
            scores (gameState r') = scores (gameState r) ++ ds \<and>
            outbox st' = outbox st @
              map (\<lambda>(p, pl). (socketId pl, ScoreUpdate (scores (gameState r')))) (players r')) \<and>
         (sp \<noteq> [] \<and> map_of (players r) sp \<noteq> None \<longrightarrow>
          (\<exists>st' r'. player_scored c cn (Some sp) st = Inr st' \<and> rooms st' k = Some r' \<and>
            players r' = players r \<and>
            scores (gameState r') = (scores (gameState r))
               (sp \<mapsto> js_add (case scores (gameState r) sp of None \<Rightarrow> 0 | Some v \<Rightarrow> v) 1) \<and>
            (\<bar>case scores (gameState r) sp of None \<Rightarrow> 0 | Some v \<Rightarrow> v\<bar> < 2 ^ 53 \<longrightarrow>
               scores (gameState r') sp =
                 Some ((case scores (gameState r) sp of None \<Rightarrow> 0 | Some v \<Rightarrow> v) + 1)) \<and>
            outbox st' = outbox st @
              map (\<lambda>(p, pl). (socketId pl, ScoreUpdate (scores (gameState r')))) (players r')))"
proof (intro conjI impI)
  let ?gs = "(gameState r)\<lparr>scores := scores (gameState r) ++ ds\<rparr>"
  let ?st' = "broadcast (players r) (\<lambda>p. ScoreUpdate (scores ?gs)) (put_room k (r\<lparr>gameState := ?gs\<rparr>) st)"
  have "score_update c cn (Some ds) st = Inr ?st'"
    using assms by (simp add: score_update_def Let_def)
  then show "\<exists>st' r'. score_update c cn (Some ds) st = Inr st' \<and> rooms st' k = Some r' \<and>
            players r' = players r \<and>
            scores (gameState r') = scores (gameState r) ++ ds \<and>
            outbox st' = outbox st @
              map (\<lambda>(p, pl). (socketId pl, ScoreUpdate (scores (gameState r')))) (players r')"
    by (intro exI[of _ ?st'] exI[of _ "r\<lparr>gameState := ?gs\<rparr>"]) simp
next
  assume sp: "sp \<noteq> [] \<and> map_of (players r) sp \<noteq> None"
  let ?old = "case scores (gameState r) sp of None \<Rightarrow> 0 | Some v \<Rightarrow> v"
  let ?gs = "(gameState r)\<lparr>scores := (scores (gameState r))(sp \<mapsto> js_add ?old 1)\<rparr>"
  let ?st' = "broadcast (players r) (\<lambda>p. ScoreUpdate (scores ?gs)) (put_room k (r\<lparr>gameState := ?gs\<rparr>) st)"
  have "sp \<in> fst ` set (players r)" using sp by (simp add: map_of_eq_None_iff)
  then have 1: "player_scored c cn (Some sp) st = Inr ?st'"
    using assms sp by (simp add: player_scored_def Let_def truthy_def)
  have 2: "\<bar>?old\<bar> < 2 ^ 53 \<longrightarrow> js_add ?old 1 = ?old + 1"
    by (auto intro!: js_add_exact)
  show "\<exists>st' r'. player_scored c cn (Some sp) st = Inr st' \<and> rooms st' k = Some r' \<and>
            players r' = players r \<and>
            scores (gameState r') = (scores (gameState r))(sp \<mapsto> js_add ?old 1) \<and>
            (\<bar>?old\<bar> < 2 ^ 53 \<longrightarrow> scores (gameState r') sp = Some (?old + 1)) \<and>
            outbox st' = outbox st @
              map (\<lambda>(p, pl). (socketId pl, ScoreUpdate (scores (gameState r')))) (players r')"
    using 1 2 by (intro exI[of _ ?st'] exI[of _ "r\<lparr>gameState := ?gs\<rparr>"]) simp
qed

theorem score_events_broadcast_witness:
  "\<exists>st cn r.
     run WebSocket init started_trace = Inr st \<and> conns st 1 = Some cn \<and>
     bound_room cn st = Some (''ABCDEF'', r) \<and>
     (\<exists>st' r'. score_update 1 cn (Some [''a'' \<mapsto> 3]) st = Inr st' \<and>
         rooms st' ''ABCDEF'' = Some r' \<and>
         scores (gameState r') = [''a'' \<mapsto> 3, ''b'' \<mapsto> 0] \<and>
         outbox st' = outbox st @ [(0, ScoreUpdate [''a'' \<mapsto> 3, ''b'' \<mapsto> 0]),
                                   (1, ScoreUpdate [''a'' \<mapsto> 3, ''b'' \<mapsto> 0])]) \<and>
     scores (gameState r) ''b'' = Some 0 \<and>
     (\<exists>st' r'. player_scored 1 cn (Some ''b'') st = Inr st' \<and>
         rooms st' ''ABCDEF'' = Some r' \<and>
         scores (gameState r') ''b'' = Some 1 \<and>
         outbox st' = outbox st @ [(0, ScoreUpdate (scores (gameState r'))),
                                   (1, ScoreUpdate (scores (gameState r')))])"
proof -
  let ?cn = "\<lparr>playerId = ''b'', roomId = Some ''ABCDEF''\<rparr>"
  let ?pa = "\<lparr>socketId = 0, ready = True, isHost = True, name = ''Player''\<rparr>"
  let ?pb = "\<lparr>socketId = 1, ready = True, isHost = False, name = ''Player''\<rparr>"
  obtain st r where st: "run WebSocket init started_trace = Inr st"
    "conns st 1 = Some ?cn" "rooms st ''ABCDEF'' = Some r"
    "players r = [(''a'', ?pa), (''b'', ?pb)]"
    "scores (gameState r) = [''a'' \<mapsto> 0, ''b'' \<mapsto> 0]"
    using started_run[of WebSocket] by blast
  have br: "bound_room ?cn st = Some (''ABCDEF'', r)"
    using st(3) by (simp add: bound_roomI)
  note T = score_events_broadcast[OF br, of 1 "[''a'' \<mapsto> 3]" "''b''"]
  have m: "[''a'' \<mapsto> 0::int, ''b'' \<mapsto> 0] ++ [''a'' \<mapsto> 3] = [''a'' \<mapsto> 3, ''b'' \<mapsto> 0]"
    by (rule ext) (simp add: map_add_def)
  have a: "\<exists>st' r'. score_update 1 ?cn (Some [''a'' \<mapsto> 3]) st = Inr st' \<and>
         rooms st' ''ABCDEF'' = Some r' \<and>
         scores (gameState r') = [''a'' \<mapsto> 3, ''b'' \<mapsto> 0] \<and>
         outbox st' = outbox st @ [(0, ScoreUpdate [''a'' \<mapsto> 3, ''b'' \<mapsto> 0]),
                                   (1, ScoreUpdate [''a'' \<mapsto> 3, ''b'' \<mapsto> 0])]"
    using conjunct1[OF T] st(4,5) m by auto
  have sb: "scores (gameState r) ''b'' = Some 0" using st(5) by simp
  have b: "\<exists>st' r'. player_scored 1 ?cn (Some ''b'') st = Inr st' \<and>
         rooms st' ''ABCDEF'' = Some r' \<and>
         scores (gameState r') ''b'' = Some 1 \<and>
         outbox st' = outbox st @ [(0, ScoreUpdate (scores (gameState r'))),
                                   (1, ScoreUpdate (scores (gameState r')))]"
    using conjunct2[OF T] st(4) sb by auto
  from st(1,2) br a sb b show ?thesis by blast
qed

lemma notify_others_frame [simp]:
  "outbox (notify_others ps me st) =
     outbox st @ map (\<lambda>(p, pl). (socketId pl, OpponentDisconnected)) (filter (\<lambda>(p, pl). p \<noteq> me) ps)"
  by (simp add: notify_others_def)

lemma filter_nonmember:
  "map_of ps me = None \<Longrightarrow> filter (\<lambda>(p, pl). p \<noteq> me) ps = ps"
  by (induction ps) (auto split: if_splits)

lemma obj_delete_nonmember: "map_of ps me = None \<Longrightarrow> obj_delete ps me = ps"
  unfolding obj_delete_def by (induction ps) (auto split: if_splits)

lemma disconnect_nonmember:
  assumes "roomId cn = Some k" "k \<noteq> []" "rooms st k = Some r"
    and "map_of (players r) (playerId cn) = None" "players r \<noteq> []"
  shows "outbox (disconnect_sio c cn st) =
           outbox st @ map (\<lambda>(p, pl). (socketId pl, OpponentDisconnected)) (players r)"
    and "outbox (close_ws c cn st) =
           outbox st @ map (\<lambda>(p, pl). (socketId pl, OpponentDisconnected)) (players r)"
    and "rooms (disconnect_sio c cn st) = rooms st"
    and "rooms (close_ws c cn st) = rooms st"
proof -
  have br: "bound_room cn st = Some (k, r)" using assms(1-3) by (simp add: bound_roomI)
  have d: "obj_delete (players r) (playerId cn) = players r"
    using assms(4) by (rule obj_delete_nonmember)
  have f: "filter (\<lambda>(p, pl). p \<noteq> playerId cn) (players r) = players r"
    using assms(4) by (rule filter_nonmember)
  have same: "(rooms st)(k \<mapsto> r) = rooms st" using assms(3) by (rule map_upd_triv)
  show "outbox (disconnect_sio c cn st) =
           outbox st @ map (\<lambda>(p, pl). (socketId pl, OpponentDisconnected)) (players r)"
    using br d f assms(5) by (simp add: disconnect_sio_def Let_def)
  show "outbox (close_ws c cn st) =
           outbox st @ map (\<lambda>(p, pl). (socketId pl, OpponentDisconnected)) (players r)"
    using br d f assms(5) by (simp add: close_ws_def Let_def)
  show "rooms (disconnect_sio c cn st) = rooms st"
    using br d assms(5) same by (simp add: disconnect_sio_def Let_def)
  show "rooms (close_ws c cn st) = rooms st"
    using br d assms(5) same by (simp add: close_ws_def Let_def)
qed

text \<open>
  C10. A connection whose id is not among the players joins a room that has two players:
  \<open>join_room\<close> sends \<open>Room is full\<close> to it, changes no room, and binds the connection to the
  room all the same. From then on, in any state where the room (under a code that is not
  empty) has players and the connection's id is not among them, the disconnection of that
  connection sends \<open>opponent_disconnected\<close> to every player of the room, in both servers,
  and changes no room.
\<close>

theorem full_room_join_binds:
  assumes "rooms st (normalize_code s) = Some r" and "length (players r) \<ge> 2"
    and "normalize_code s \<noteq> []" and "map_of (players r) (playerId cn) = None"
  shows "\<exists>st1 cn1. join_room c cn (Some s) pn st = Inr st1 \<and>
           rooms st1 = rooms st \<and>
           outbox st1 = outbox st @ [(c, ErrorMsg ''Room is full'')] \<and>
           conns st1 c = Some cn1 \<and> roomId cn1 = Some (normalize_code s) \<and>
           playerId cn1 = playerId cn \<and>
           (\<forall>st2 r2. rooms st2 (normalize_code s) = Some r2 \<and> players r2 \<noteq> [] \<and>
               map_of (players r2) (playerId cn) = None \<longrightarrow>
               outbox (disconnect_sio c cn1 st2) =
                 outbox st2 @ map (\<lambda>(p, pl). (socketId pl, OpponentDisconnected)) (players r2) \<and>
               outbox (close_ws c cn1 st2) =
                 outbox st2 @ map (\<lambda>(p, pl). (socketId pl, OpponentDisconnected)) (players r2) \<and>
               rooms (disconnect_sio c cn1 st2) = rooms st2 \<and>
               rooms (close_ws c cn1 st2) = rooms st2)"
proof -
  let ?k = "normalize_code s"
  let ?cn1 = "cn\<lparr>roomId := Some ?k\<rparr>"
  let ?st1 = "emit c (ErrorMsg ''Room is full'') (set_roomId c cn ?k st)"
  have j: "join_room c cn (Some s) pn st = Inr ?st1"
    using assms(1,2) by (simp add: join_room_def Let_def)
  have r1: "rooms ?st1 = rooms st" by simp
  have o1: "outbox ?st1 = outbox st @ [(c, ErrorMsg ''Room is full'')]"
    by (simp add: emit_def set_roomId_def)
  have c1: "conns ?st1 c = Some ?cn1" by (simp add: emit_def set_roomId_def)
  have rid: "roomId ?cn1 = Some ?k" by simp
  have D: "outbox (disconnect_sio c ?cn1 st2) =
                 outbox st2 @ map (\<lambda>(p, pl). (socketId pl, OpponentDisconnected)) (players r2) \<and>
               outbox (close_ws c ?cn1 st2) =
                 outbox st2 @ map (\<lambda>(p, pl). (socketId pl, OpponentDisconnected)) (players r2) \<and>
               rooms (disconnect_sio c ?cn1 st2) = rooms st2 \<and>
               rooms (close_ws c ?cn1 st2) = rooms st2"
    if "rooms st2 ?k = Some r2 \<and> players r2 \<noteq> [] \<and> map_of (players r2) (playerId cn) = None"
    for st2 r2
    using disconnect_nonmember[OF rid assms(3), of st2 r2 c] that by simp
  have pid: "playerId ?cn1 = playerId cn" by simp
  from j r1 o1 c1 rid pid D show ?thesis by blast
qed

theorem full_room_join_binds_witness:
  "\<exists>st r st1 cn1.
     run SocketIO init lobby_trace = Inr st \<and> rooms st (normalize_code ''abcdef'') = Some r \<and>
     join_room 2 \<lparr>playerId = ''c'', roomId = None\<rparr> (Some ''abcdef'') None st = Inr st1 \<and>
     outbox st1 = outbox st @ [(2, ErrorMsg ''Room is full'')] \<and>
     conns st1 2 = Some cn1 \<and> roomId cn1 = Some ''ABCDEF'' \<and>
     outbox (disconnect_sio 2 cn1 st1) =
       outbox st1 @ [(0, OpponentDisconnected), (1, OpponentDisconnected)] \<and>
     outbox (close_ws 2 cn1 st1) =
       outbox st1 @ [(0, OpponentDisconnected), (1, OpponentDisconnected)]"
proof -
  let ?cn = "\<lparr>playerId = ''c'', roomId = None\<rparr>"
  let ?pa = "\<lparr>socketId = 0, ready = False, isHost = True, name = ''Player''\<rparr>"
  let ?pb = "\<lparr>socketId = 1, ready = False, isHost = False, name = ''Player''\<rparr>"
  have nc: "normalize_code ''abcdef'' = ''ABCDEF''"
    by (simp add: normalize_code_def trim_def is_space_def toUpperCase_def upper_char_def)
  obtain st r where st: "run SocketIO init lobby_trace = Inr st"
    "rooms st ''ABCDEF'' = Some r" "players r = [(''a'', ?pa), (''b'', ?pb)]"
    using lobby_run[of SocketIO] by blast
  have h1: "rooms st (normalize_code ''abcdef'') = Some r" using st(2) nc by simp
  have h2: "length (players r) \<ge> 2" using st(3) by simp
  have h3: "normalize_code ''abcdef'' \<noteq> []" using nc by simp
  have h4: "map_of (players r) (playerId ?cn) = None" using st(3) by simp
  obtain st1 cn1 where j: "join_room 2 ?cn (Some ''abcdef'') None st = Inr st1"
    "rooms st1 = rooms st" "outbox st1 = outbox st @ [(2, ErrorMsg ''Room is full'')]"
    "conns st1 2 = Some cn1" "roomId cn1 = Some ''ABCDEF''"
    and D: "\<And>st2 r2. rooms st2 ''ABCDEF'' = Some r2 \<and> players r2 \<noteq> [] \<and>
               map_of (players r2) ''c'' = None \<Longrightarrow>
               outbox (disconnect_sio 2 cn1 st2) =
                 outbox st2 @ map (\<lambda>(p, pl). (socketId pl, OpponentDisconnected)) (players r2) \<and>
               outbox (close_ws 2 cn1 st2) =
                 outbox st2 @ map (\<lambda>(p, pl). (socketId pl, OpponentDisconnected)) (players r2)"
    using full_room_join_binds[OF h1 h2 h3 h4, of 2 None] nc by auto
  have "rooms st1 ''ABCDEF'' = Some r \<and> players r \<noteq> [] \<and> map_of (players r) ''c'' = None"
    using j(2) st(2,3) by simp
  from D[OF this] st(3) have
    "outbox (disconnect_sio 2 cn1 st1) = outbox st1 @ [(0, OpponentDisconnected), (1, OpponentDisconnected)]"
    "outbox (close_ws 2 cn1 st1) = outbox st1 @ [(0, OpponentDisconnected), (1, OpponentDisconnected)]"
    by simp_all
  with st(1) h1 j show ?thesis by blast
qed

section \<open>The end of the first set\<close>

lemmas ev3 = tick_def timer_body_def js_key_def clearInterval_def set_matchState_def
  player_scored_def score_update_def

text \<open>
  The host scores once in the first set. After the tick that ends the set the room is in
  its rest period with 30 seconds to go and the first set's score of the host is 1, and the
  host's live score is still 1: the tick has not reset it.
\<close>

theorem set1_expiry_keeps_live_scores:
  "live_score (run SocketIO init set1_end_trace) ''ABCDEF'' ''a'' = Some 1 \<and>
   map_option isRestPeriod (match_after (run SocketIO init set1_end_trace) ''ABCDEF'') = Some True \<and>
   map_option restTimeRemaining (match_after (run SocketIO init set1_end_trace) ''ABCDEF'') = Some 30 \<and>
   map_option (\<lambda>ms. set1Scores ms ''a'') (match_after (run SocketIO init set1_end_trace) ''ABCDEF'')
     = Some (Some 1)"
  by (simp add: live_score_def match_after_def set1_end_trace_def started_trace_def ev ev2 ev3)

text \<open>
  C3, as the code has it. Take an active timer whose owner's room exists and has a match
  state. On a tick in the first set, outside the rest period, that brings \<open>timeRemaining\<close>
  to zero or below, the handler copies the live scores of the two players the timer was
  made with into \<open>set1Scores\<close>, leaves the game state with its live scores as it is,
  enters the rest period with \<open>restTimeRemaining = 30\<close>, and sends \<open>rest_period_starting\<close>
  with the new match state to every player of the room. The live scores of those two
  players are set to zero by the later tick that brings \<open>restTimeRemaining\<close> to zero or
  below: that tick starts set 2 with 120 seconds and sends \<open>set2_starting\<close> to every player.
\<close>

theorem timer_expiry:
  assumes "t < length (timers st)" and "active (timers st ! t)"
    and "conns st (owner (timers st ! t)) = Some cn"
    and "rooms st (js_key (roomId cn)) = Some r" and "matchState r = Some ms"
  shows "(\<not> isRestPeriod ms \<and> currentSet ms = 1 \<and>
          timeRemaining ms - (now - lastUpdateTime ms) div 1000 \<le> 0 \<longrightarrow>
          (\<exists>st' r' ms'. tick t now st = Inr st' \<and>
             rooms st' (js_key (roomId cn)) = Some r' \<and> matchState r' = Some ms' \<and>
             set1Scores ms' (tp0 (timers st ! t)) = scores (gameState r) (tp0 (timers st ! t)) \<and>
             set1Scores ms' (tp1 (timers st ! t)) = scores (gameState r) (tp1 (timers st ! t)) \<and>
             gameState r' = gameState r \<and>
             isRestPeriod ms' \<and> restTimeRemaining ms' = 30 \<and> currentSet ms' = 1 \<and>
             lastUpdateTime ms' = now \<and> players r' = players r \<and>
             timers st' = timers st \<and> conns st' = conns st \<and>
             outbox st' = outbox st @
               map (\<lambda>(p, pl). (socketId pl, RestPeriodStarting ms')) (players r))) \<and>
         (isRestPeriod ms \<and> restTimeRemaining ms - (now - lastUpdateTime ms) div 1000 \<le> 0 \<longrightarrow>
          (\<exists>st' r' ms'. tick t now st = Inr st' \<and>
             rooms st' (js_key (roomId cn)) = Some r' \<and> matchState r' = Some ms' \<and>
             scores (gameState r') = (scores (gameState r))
                (tp0 (timers st ! t) \<mapsto> 0, tp1 (timers st ! t) \<mapsto> 0) \<and>
             \<not> isRestPeriod ms' \<and> currentSet ms' = 2 \<and> timeRemaining ms' = 120 \<and>
             outbox st' = outbox st @
               map (\<lambda>(p, pl). (socketId pl, Set2Starting ms')) (players r)))"
proof (intro conjI impI)
  let ?tm = "timers st ! t"
  let ?k = "js_key (roomId cn)"
  assume h: "\<not> isRestPeriod ms \<and> currentSet ms = 1 \<and>
          timeRemaining ms - (now - lastUpdateTime ms) div 1000 \<le> 0"
  let ?ms' = "ms\<lparr>lastUpdateTime := now,
                 timeRemaining := timeRemaining ms - (now - lastUpdateTime ms) div 1000,
                 set1Scores := (set1Scores ms)(tp0 ?tm := scores (gameState r) (tp0 ?tm),
                                               tp1 ?tm := scores (gameState r) (tp1 ?tm)),
                 isRestPeriod := True, restTimeRemaining := 30\<rparr>"
  let ?r' = "set_matchState ?ms' r"
  let ?st' = "broadcast (players r) (\<lambda>p. RestPeriodStarting ?ms') (put_room ?k ?r' st)"
  have "tick t now st = Inr ?st'"
    using assms h by (simp add: tick_def timer_body_def Let_def)
  then show "\<exists>st' r' ms'. tick t now st = Inr st' \<and>
             rooms st' (js_key (roomId cn)) = Some r' \<and> matchState r' = Some ms' \<and>
             set1Scores ms' (tp0 (timers st ! t)) = scores (gameState r) (tp0 (timers st ! t)) \<and>
             set1Scores ms' (tp1 (timers st ! t)) = scores (gameState r) (tp1 (timers st ! t)) \<and>
             gameState r' = gameState r \<and>
             isRestPeriod ms' \<and> restTimeRemaining ms' = 30 \<and> currentSet ms' = 1 \<and>
             lastUpdateTime ms' = now \<and> players r' = players r \<and>
             timers st' = timers st \<and> conns st' = conns st \<and>
             outbox st' = outbox st @
               map (\<lambda>(p, pl). (socketId pl, RestPeriodStarting ms')) (players r)"
    using h by (intro exI[of _ ?st'] exI[of _ ?r'] exI[of _ ?ms']) (simp add: set_matchState_def)
next
  let ?tm = "timers st ! t"
  let ?k = "js_key (roomId cn)"
  assume h: "isRestPeriod ms \<and> restTimeRemaining ms - (now - lastUpdateTime ms) div 1000 \<le> 0"
  let ?ms' = "ms\<lparr>lastUpdateTime := now,
                 restTimeRemaining := restTimeRemaining ms - (now - lastUpdateTime ms) div 1000,
                 isRestPeriod := False, currentSet := 2, timeRemaining := 2 * 60\<rparr>"
  let ?gs' = "(gameState r)\<lparr>scores := (scores (gameState r))(tp0 ?tm \<mapsto> 0, tp1 ?tm \<mapsto> 0)\<rparr>"
  let ?r' = "r\<lparr>gameState := ?gs', matchState := Some ?ms'\<rparr>"
  let ?st' = "broadcast (players r) (\<lambda>p. Set2Starting ?ms') (put_room ?k ?r' st)"
  have "tick t now st = Inr ?st'"
    using assms h by (simp add: tick_def timer_body_def Let_def)
  then show "\<exists>st' r' ms'. tick t now st = Inr st' \<and>
             rooms st' (js_key (roomId cn)) = Some r' \<and> matchState r' = Some ms' \<and>
             scores (gameState r') = (scores (gameState r))
                (tp0 (timers st ! t) \<mapsto> 0, tp1 (timers st ! t) \<mapsto> 0) \<and>
             \<not> isRestPeriod ms' \<and> currentSet ms' = 2 \<and> timeRemaining ms' = 120 \<and>
             outbox st' = outbox st @
               map (\<lambda>(p, pl). (socketId pl, Set2Starting ms')) (players r)"
    by (intro exI[of _ ?st'] exI[of _ ?r'] exI[of _ ?ms']) simp
qed

theorem timer_expiry_witness:
  "\<exists>st st1 st2 r1 r2 ms1 ms2.
     run SocketIO init started_trace = Inr st \<and>
     tick 0 122000 st = Inr st1 \<and> rooms st1 ''ABCDEF'' = Some r1 \<and>
     matchState r1 = Some ms1 \<and> isRestPeriod ms1 \<and> restTimeRemaining ms1 = 30 \<and>
     set1Scores ms1 ''a'' = Some 0 \<and> scores (gameState r1) ''a'' = Some 0 \<and>
     outbox st1 = outbox st @ [(0, RestPeriodStarting ms1), (1, RestPeriodStarting ms1)] \<and>
     tick 0 152000 st1 = Inr st2 \<and> rooms st2 ''ABCDEF'' = Some r2 \<and>
     matchState r2 = Some ms2 \<and> currentSet ms2 = 2 \<and> timeRemaining ms2 = 120 \<and>
     scores (gameState r2) ''a'' = Some 0 \<and>
     outbox st2 = outbox st1 @ [(0, Set2Starting ms2), (1, Set2Starting ms2)]"
proof -
  let ?cn = "\<lparr>playerId = ''b'', roomId = Some ''ABCDEF''\<rparr>"
  let ?pa = "\<lparr>socketId = 0, ready = True, isHost = True, name = ''Player''\<rparr>"
  let ?pb = "\<lparr>socketId = 1, ready = True, isHost = False, name = ''Player''\<rparr>"
  let ?tm = "\<lparr>owner = 1, tp0 = ''a'', tp1 = ''b'', active = True\<rparr>"
  obtain st r ms where st: "run SocketIO init started_trace = Inr st"
    "conns st 1 = Some ?cn" "rooms st ''ABCDEF'' = Some r"
    "players r = [(''a'', ?pa), (''b'', ?pb)]" "matchState r = Some ms"
    "currentSet ms = 1" "timeRemaining ms = 120" "\<not> isRestPeriod ms" "lastUpdateTime ms = 2000"
    "scores (gameState r) = [''a'' \<mapsto> 0, ''b'' \<mapsto> 0]" "timers st = [?tm]"
    using started_run[of SocketIO] by blast
  have k: "js_key (roomId ?cn) = ''ABCDEF''" by (simp add: js_key_def)
  have t0: "0 < length (timers st)" "active (timers st ! 0)" "conns st (owner (timers st ! 0)) = Some ?cn"
    using st(2,11) by simp_all
  have rk: "rooms st (js_key (roomId ?cn)) = Some r" using st(3) k by simp
  have h1: "\<not> isRestPeriod ms \<and> currentSet ms = 1 \<and>
            timeRemaining ms - (122000 - lastUpdateTime ms) div 1000 \<le> 0"
    using st(6-9) by simp
  obtain st1 r1 ms1 where s1: "tick 0 122000 st = Inr st1" "rooms st1 ''ABCDEF'' = Some r1"
    "matchState r1 = Some ms1" "set1Scores ms1 ''a'' = Some 0" "gameState r1 = gameState r"
    "isRestPeriod ms1" "restTimeRemaining ms1 = 30" "lastUpdateTime ms1 = 122000"
    "players r1 = players r" "timers st1 = timers st" "conns st1 = conns st"
    "outbox st1 = outbox st @ map (\<lambda>(p, pl). (socketId pl, RestPeriodStarting ms1)) (players r)"
    using conjunct1[OF timer_expiry[OF t0 rk st(5), of 122000], rule_format, OF h1] k st(10,11)
    by auto
  have t1: "0 < length (timers st1)" "active (timers st1 ! 0)"
    "conns st1 (owner (timers st1 ! 0)) = Some ?cn"
    using t0 s1(10,11) by simp_all
  have rk1: "rooms st1 (js_key (roomId ?cn)) = Some r1" using s1(2) k by simp
  have h2: "isRestPeriod ms1 \<and> restTimeRemaining ms1 - (152000 - lastUpdateTime ms1) div 1000 \<le> 0"
    using s1(6-8) by simp
  obtain st2 r2 ms2 where s2: "tick 0 152000 st1 = Inr st2" "rooms st2 ''ABCDEF'' = Some r2"
    "matchState r2 = Some ms2" "scores (gameState r2) ''a'' = Some 0"
    "currentSet ms2 = 2" "timeRemaining ms2 = 120"
    "outbox st2 = outbox st1 @ map (\<lambda>(p, pl). (socketId pl, Set2Starting ms2)) (players r1)"
    using conjunct2[OF timer_expiry[OF t1 rk1 s1(3), of 152000], rule_format, OF h2] k s1(10) st(11)
    by auto
  have o1: "outbox st1 = outbox st @ [(0, RestPeriodStarting ms1), (1, RestPeriodStarting ms1)]"
    using s1(12) st(4) by simp
  have o2: "outbox st2 = outbox st1 @ [(0, Set2Starting ms2), (1, Set2Starting ms2)]"
    using s2(7) s1(9) st(4) by simp
  have sc1: "scores (gameState r1) ''a'' = Some 0" using s1(5) st(10) by simp
  from st(1) s1(1,2,3,6,7,4) sc1 o1 s2(1,2,3,5,6,4) o2 show ?thesis by blast
qed

section \<open>The timer of a destroyed room\<close>

lemmas ev4 = disconnect_sio_def close_ws_def notify_others_def delete_room_def obj_delete_def

text \<open>
  C4. In the WebSocket server, after both players of a started game have disconnected
  the room is gone and its timer is still active; the timer's next tick throws. The
  Socket.io server has cleared the timer, and a tick does nothing. When a player has said
  \<open>player_ready\<close> twice, two timers run; the Socket.io server clears the second only, and
  a tick of the first throws there too.
\<close>

theorem timer_outlives_room:
  "\<not> room_exists (run WebSocket init both_leave_trace) ''ABCDEF'' \<and>
   timers_active (run WebSocket init both_leave_trace) = Some [True] \<and>
   run WebSocket init (both_leave_trace @ [Tick 0 3000]) = Inl TypeError \<and>
   \<not> room_exists (run SocketIO init both_leave_trace) ''ABCDEF'' \<and>
   timers_active (run SocketIO init both_leave_trace) = Some [False] \<and>
   timers_active (run SocketIO init (both_leave_trace @ [Tick 0 3000])) = Some [False] \<and>
   timers_active (run SocketIO init ready_twice_trace) = Some [True, False] \<and>
   run SocketIO init (ready_twice_trace @ [Tick 0 3000]) = Inl TypeError"
  by (simp add: room_exists_def timers_active_def both_leave_trace_def ready_twice_trace_def
        started_trace_def ev ev2 ev3 ev4)

section \<open>Payloads with a missing field\<close>

lemmas ev5 = ball_update_def paddle_move_def relay_other_def

text \<open>
  A \<open>score_update\<close> without \<open>scores\<close> from a player in a room sends nothing, so no error
  reaches the sender. A \<open>ball_update\<close> without \<open>ball\<close> from the host of a started game
  replaces the ball by \<open>undefined\<close> and relays that to the other player.
\<close>

theorem missing_field_counterexample:
  "outbox_after (run WebSocket init (lobby_trace @ [ScoreUpdateEv 0 None])) =
     outbox_after (run WebSocket init lobby_trace) \<and>
   outbox_after (run WebSocket init lobby_trace) \<noteq> None \<and>
   ball_after (run WebSocket init started_trace) ''ABCDEF'' =
     Some (Some \<lparr>ball_x = 400, ball_y = 200, speedX = 0, speedY = 0\<rparr>) \<and>
   ball_after (run WebSocket init (started_trace @ [BallUpdateEv 0 None])) ''ABCDEF'' = Some None \<and>
   map_option last (outbox_after (run WebSocket init (started_trace @ [BallUpdateEv 0 None]))) =
     Some (1, BallUpdate None)"
  by (simp add: outbox_after_def ball_after_def lobby_trace_def started_trace_def ev ev2 ev3 ev5)

text \<open>
  C7, as the code has it. A \<open>score_update\<close> without \<open>scores\<close> and a \<open>player_scored\<close> without
  \<open>scoringPlayer\<close>, in both servers, and a \<open>join_room\<close> without \<open>roomId\<close> in the WebSocket
  server leave the whole state as it was: no room and no queue entry is changed and
  nothing is sent to anyone, the sender included.
\<close>

theorem missing_field_dropped:
  "step sv st (ScoreUpdateEv c None) = Inr st \<and>
   step sv st (PlayerScored c None) = Inr st \<and>
   step WebSocket st (JoinRoom c None pn) = Inr st"
  by (cases sv)
     (auto simp: step_def on_event_sio_def on_message_ws_def score_update_def player_scored_def
        join_room_def split: option.splits prod.splits)

section \<open>The flag gameStarted\<close>

lemma room_step_at_same: "rooms st' k = rooms st k \<Longrightarrow> room_step st e st' k"
  by (simp add: room_step_def)

lemma room_step_same: "rooms st' = rooms st \<Longrightarrow> room_step st e st' k"
  by (simp add: room_step_def)

lemma room_step_none: "rooms st' k = None \<Longrightarrow> room_step st e st' k"
  by (simp add: room_step_def)

lemma room_step_new:
  "rooms st' k = Some (new_room ps) \<Longrightarrow> creates e k \<Longrightarrow> room_step st e st' k"
  unfolding room_step_def by blast

lemma room_step_keep:
  "rooms st k = Some r \<Longrightarrow> rooms st' k = Some r' \<Longrightarrow> gameStarted r' = gameStarted r \<Longrightarrow>
   room_step st e st' k"
  unfolding room_step_def by blast

lemma room_step_upd:
  assumes "rooms st k0 = Some r" "rooms st' = (rooms st)(k0 \<mapsto> r')" "gameStarted r' = gameStarted r"
  shows "room_step st e st' k"
proof (cases "k = k0")
  case True
  with assms show ?thesis by (intro room_step_keep[of st k r st' r']) simp_all
next
  case False
  with assms show ?thesis by (intro room_step_at_same) simp
qed

lemma room_step_put_new:
  assumes "rooms st' = (rooms st)(k0 \<mapsto> new_room ps)" "creates e k0"
  shows "room_step st e st' k"
proof (cases "k = k0")
  case True
  with assms show ?thesis by (intro room_step_new[of st' k ps]) simp_all
next
  case False
  with assms show ?thesis by (intro room_step_at_same) simp
qed

lemma room_step_del:
  assumes "rooms st' = (rooms st)(k0 := None)"
  shows "room_step st e st' k"
proof (cases "k = k0")
  case True
  with assms show ?thesis by (intro room_step_none) simp
next
  case False
  with assms show ?thesis by (intro room_step_at_same) simp
qed

lemma room_step_inplace: "inplace st st' \<Longrightarrow> room_step st e st' k"
  unfolding inplace_def keeps_def
  by (auto intro: room_step_same room_step_upd)

lemma create_room_rooms:
  "create_room c cn rnd pn st = Inr st' \<Longrightarrow>
   \<exists>ps. rooms st' = (rooms st)(shortRoomId rnd \<mapsto> new_room ps)"
  by (auto simp: create_room_def Let_def)

lemma room_step_create:
  assumes "create_room c cn rnd pn st = Inr st'"
  shows "room_step st (CreateRoom c' rnd pn) st' k"
proof -
  obtain ps where "rooms st' = (rooms st)(shortRoomId rnd \<mapsto> new_room ps)"
    using create_room_rooms[OF assms] by blast
  then show ?thesis by (rule room_step_put_new) (simp add: creates_def)
qed

lemma room_step_find:
  assumes "find_game c cn rnd pn st = Inr st'"
  shows "room_step st (FindGame c' rnd pn) st' k"
proof -
  from find_game_rooms[OF assms]
  consider "rooms st' = rooms st"
    | ps where "rooms st' = (rooms st)(shortRoomId rnd \<mapsto> new_room ps)"
    by blast
  then show ?thesis
  proof cases
    case 1
    then show ?thesis by (rule room_step_same)
  next
    case 2
    then show ?thesis by (rule room_step_put_new) (simp add: creates_def)
  qed
qed

lemma room_step_join:
  assumes "join_room c cn rid pn st = Inr st'"
  shows "room_step st (JoinRoom c' rid pn) st' k"
proof (cases rid)
  case None
  with assms show ?thesis by (simp add: join_room_def)
next
  case (Some s)
  obtain st1 where 1: "join_room c cn (Some s) pn st = Inr st1"
    and 2: "(case rooms st (normalize_code s) of
        None \<Rightarrow> rooms st1 = rooms st \<and> outbox st1 = outbox st @ [(c, ErrorMsg ''Room not found'')]
      | Some r \<Rightarrow>
          if length (players r) \<ge> 2
          then rooms st1 = rooms st \<and> outbox st1 = outbox st @ [(c, ErrorMsg ''Room is full'')]
          else rooms st1 = (rooms st)(normalize_code s \<mapsto>
                 r\<lparr>players := obj_set (players r) (playerId cn)
                      \<lparr>socketId = c, ready = False, isHost = False, name = name_or_default pn\<rparr>\<rparr>))"
    using join_room_effect[of c cn s pn st] by blast
  have e: "st1 = st'" using 1 assms Some by simp
  show ?thesis
  proof (cases "rooms st (normalize_code s)")
    case None
    with 2 e show ?thesis by (auto intro: room_step_same)
  next
    case r: (Some r)
    show ?thesis
    proof (cases "length (players r) \<ge> 2")
      case True
      with 2 e r show ?thesis by (auto intro: room_step_same)
    next
      case False
      with 2 e r have "rooms st' = (rooms st)(normalize_code s \<mapsto>
                 r\<lparr>players := obj_set (players r) (playerId cn)
                      \<lparr>socketId = c, ready = False, isHost = False, name = name_or_default pn\<rparr>\<rparr>)"
        by simp
      then show ?thesis by (rule room_step_upd[OF r]) simp
    qed
  qed
qed

lemma room_step_ready:
  assumes "conns st c = Some cn" "player_ready c cn now st = Inr st'"
  shows "room_step st (PlayerReady c now) st' k"
proof -
  from player_ready_rooms[OF assms(2)]
  consider "rooms st' = rooms st"
    | k0 r r' pl where "bound_room cn st = Some (k0, r)" "map_of (players r) (playerId cn) = Some pl"
        "rooms st' = (rooms st)(k0 \<mapsto> r')"
        "players r' = obj_set (players r) (playerId cn) (pl\<lparr>ready := True\<rparr>)"
        "gameStarted r' = (gameStarted r \<or>
           (list_all (\<lambda>(p, q). ready q) (players r') \<and> length (players r') = 2))"
    by blast
  then show ?thesis
  proof cases
    case 1
    then show ?thesis by (rule room_step_same)
  next
    case 2
    show ?thesis
    proof (cases "k = k0")
      case True
      have "rooms st' k = Some r'" using 2(3) True by simp
      with assms(1) 2 True show ?thesis unfolding room_step_def by blast
    next
      case False
      then have "rooms st' k = rooms st k" using 2(3) by simp
      then show ?thesis by (simp add: room_step_def)
    qed
  qed
qed

lemma room_step_disconnect:
  assumes "rooms st' = rooms st \<or>
     (\<exists>k r. bound_room cn st = Some (k, r) \<and>
        (if obj_delete (players r) p = [] then rooms st' = (rooms st)(k := None)
         else rooms st' = (rooms st)(k \<mapsto> r\<lparr>players := obj_delete (players r) p\<rparr>)))"
  shows "room_step st e st' k"
proof -
  from assms consider "rooms st' = rooms st"
    | k0 where "rooms st' = (rooms st)(k0 := None)"
    | k0 r where "rooms st k0 = Some r"
        "rooms st' = (rooms st)(k0 \<mapsto> r\<lparr>players := obj_delete (players r) p\<rparr>)"
    by (auto split: if_splits dest!: bound_room_Some)
  then show ?thesis
  proof cases
    case 1
    then show ?thesis by (rule room_step_same)
  next
    case 2
    then show ?thesis by (rule room_step_del)
  next
    case 3
    from 3(2) show ?thesis by (rule room_step_upd[OF 3(1)]) simp
  qed
qed

lemma room_step_handle:
  assumes "conns st c = Some cn" "sender e = Some c" "handle e c cn st = Inr st'"
  shows "room_step st e st' k"
proof (cases e)
  case (CreateRoom c' rnd pn)
  with assms show ?thesis by (auto intro: room_step_create)
next
  case (JoinRoom c' rid pn)
  with assms show ?thesis by (auto intro: room_step_join)
next
  case (FindGame c' rnd pn)
  with assms show ?thesis by (auto intro: room_step_find)
next
  case (PlayerReady c' now)
  with assms show ?thesis by (auto intro: room_step_ready)
next
  case (PaddleMove c' y)
  with assms show ?thesis by (auto intro: room_step_inplace[OF paddle_move_inplace])
next
  case (BallUpdateEv c' b)
  with assms show ?thesis by (auto intro: room_step_inplace[OF ball_update_inplace])
next
  case (ScoreUpdateEv c' sc)
  with assms show ?thesis by (auto intro: room_step_inplace[OF score_update_inplace])
next
  case (PlayerScored c' sp)
  with assms show ?thesis by (auto intro: room_step_inplace[OF player_scored_inplace])
qed (use assms in \<open>auto intro: room_step_same\<close>)

lemma room_step_step:
  assumes "step sv st e = Inr st'"
  shows "room_step st e st' k"
proof (cases "\<exists>c p. e = Connect c p")
  case True
  with assms show ?thesis by (auto simp: step_def intro!: room_step_same)
next
  case nc: False
  show ?thesis
  proof (cases "\<exists>t now. e = Tick t now")
    case True
    with assms show ?thesis by (auto simp: step_def intro: room_step_inplace[OF tick_inplace])
  next
    case nt: False
    show ?thesis
    proof (cases "\<exists>c. e = Disconnect c")
      case True
      then obtain c where e: "e = Disconnect c" by blast
      show ?thesis
      proof (cases "conns st c")
        case None
        with assms e show ?thesis by (simp add: step_def room_step_same)
      next
        case (Some cn)
        with assms e show ?thesis
          by (cases sv)
             (auto simp: step_def
               intro: room_step_disconnect[OF disconnect_sio_rooms] room_step_disconnect[OF close_ws_rooms])
      qed
    next
      case nd: False
      show ?thesis
      proof (cases "sender e")
        case None
        with assms nc nt nd show ?thesis by (cases e) (auto simp: step_def room_step_same)
      next
        case (Some c)
        show ?thesis
        proof (cases "conns st c")
          case None
          with assms nc nt nd Some show ?thesis by (cases e) (auto simp: step_def room_step_same)
        next
          case cn: (Some cn)
          have "handle e c cn st = Inr st' \<or> st' = st"
            using assms nc nt nd Some cn
            by (cases e; cases sv)
               (auto simp: step_def on_event_sio_def on_message_ws_def split: sum.splits)
          with cn Some show ?thesis by (auto intro: room_step_handle room_step_same)
        qed
      qed
    qed
  qed
qed

lemma list_all_obj_set:
  "distinct (map fst ps) \<Longrightarrow> map_of ps k = Some v \<Longrightarrow>
   list_all (\<lambda>(p, q). P q) (obj_set ps k w) = (P w \<and> list_all (\<lambda>(p, q). p = k \<or> P q) ps)"
proof (induction ps)
  case Nil
  then show ?case by simp
next
  case (Cons a ps)
  obtain k' v' where a: "a = (k', v')" by (cases a)
  show ?case
  proof (cases "k' = k")
    case True
    then have "k \<notin> fst ` set ps" using Cons.prems(1) a by auto
    then have "list_all (\<lambda>(p, q). p = k \<or> P q) ps = list_all (\<lambda>(p, q). P q) ps"
      by (induction ps) auto
    with True a show ?thesis by simp
  next
    case False
    with Cons a show ?thesis by auto
  qed
qed

lemma rooms_gameStarted_mono:
  assumes "step sv st e = Inr st'" "\<not> creates e k" "rooms st k = Some r" "gameStarted r"
    and "rooms st' k = Some r'"
  shows "gameStarted r'"
  using room_step_step[OF assms(1), of k] assms(2-5)
  unfolding room_step_def
  by (auto simp: new_room_def dest!: bound_room_Some)

lemma rooms_stay_absent:
  assumes "step sv st e = Inr st'" "\<not> creates e k" "rooms st k = None"
  shows "rooms st' k = None"
  using room_step_step[OF assms(1), of k] assms(2-3)
  unfolding room_step_def
  by (auto dest!: bound_room_Some)

lemma run_gameStarted_mono:
  assumes "run sv st es = Inr st'" "list_all (\<lambda>e. \<not> creates e k) es"
    and "rooms st k = None \<or> (\<exists>r. rooms st k = Some r \<and> gameStarted r)"
  shows "rooms st' k = None \<or> (\<exists>r'. rooms st' k = Some r' \<and> gameStarted r')"
  using assms
proof (induction es arbitrary: st)
  case Nil
  then show ?case by simp
next
  case (Cons e es)
  from Cons.prems(1) obtain st1 where 1: "step sv st e = Inr st1" "run sv st1 es = Inr st'"
    by (auto split: sum.splits)
  have nc: "\<not> creates e k" "list_all (\<lambda>e. \<not> creates e k) es" using Cons.prems(2) by simp_all
  have "rooms st1 k = None \<or> (\<exists>r. rooms st1 k = Some r \<and> gameStarted r)"
  proof (cases "rooms st1 k")
    case None
    then show ?thesis by simp
  next
    case (Some r1)
    show ?thesis
    proof (cases "rooms st k")
      case None
      with rooms_stay_absent[OF 1(1) nc(1)] Some show ?thesis by simp
    next
      case r: (Some r)
      with Cons.prems(3) have "gameStarted r" by simp
      from rooms_gameStarted_mono[OF 1(1) nc(1) r this Some] Some show ?thesis by simp
    qed
  qed
  from Cons.IH[OF 1(2) nc(2) this] show ?case .
qed

lemma player_ready_exact:
  assumes "player_ready c cn now st = Inr st'"
  shows "case bound_room cn st of
           None \<Rightarrow> st' = st
         | Some (k0, r0) \<Rightarrow>
             (case map_of (players r0) (playerId cn) of
                None \<Rightarrow> st' = st
              | Some pl \<Rightarrow>
                  (\<exists>r'. rooms st' = (rooms st)(k0 \<mapsto> r') \<and>
                     gameStarted r' = (gameStarted r0 \<or>
                       (list_all (\<lambda>(p, q). ready q)
                          (obj_set (players r0) (playerId cn) (pl\<lparr>ready := True\<rparr>)) \<and>
                        length (obj_set (players r0) (playerId cn) (pl\<lparr>ready := True\<rparr>)) = 2))))"
proof (cases "bound_room cn st")
  case None
  with assms show ?thesis by (simp add: player_ready_def)
next
  case (Some a)
  obtain k0 r0 where a: "a = (k0, r0)" by (cases a)
  show ?thesis
  proof (cases "map_of (players r0) (playerId cn)")
    case None
    with assms Some a show ?thesis by (simp add: player_ready_def)
  next
    case pl: (Some pl)
    let ?ps = "obj_set (players r0) (playerId cn) (pl\<lparr>ready := True\<rparr>)"
    show ?thesis
    proof (cases "list_all (\<lambda>(p, q). ready q) ?ps \<and> length ?ps = 2")
      case True
      with assms Some a pl have "st' = start_game c k0 r0 ?ps now st"
        by (simp add: player_ready_def Let_def)
      then have "rooms st' = (rooms st)(k0 \<mapsto> started_room r0 ?ps now (length (timers st)))"
        by simp
      with Some a pl True show ?thesis
        by (auto intro!: exI[of _ "started_room r0 ?ps now (length (timers st))"])
    next
      case False
      with assms Some a pl have "st' = put_room k0 (r0\<lparr>players := ?ps\<rparr>) st"
        by (auto simp: player_ready_def Let_def)
      then have "rooms st' = (rooms st)(k0 \<mapsto> r0\<lparr>players := ?ps\<rparr>)" by simp
      moreover have "gameStarted (r0\<lparr>players := ?ps\<rparr>) = gameStarted r0" by simp
      ultimately show ?thesis using Some a pl False
        by (auto intro!: exI[of _ "r0\<lparr>players := ?ps\<rparr>"])
    qed
  qed
qed

lemma step_PlayerReady:
  "step sv st (PlayerReady c now) =
     (case conns st c of None \<Rightarrow> Inr st | Some cn \<Rightarrow> player_ready c cn now st)"
  by (cases sv)
     (auto simp: step_def on_event_sio_def on_message_ws_def player_ready_def Let_def
        split: option.splits sum.splits prod.splits)

lemma ready_starts_iff:
  assumes "rooms_ok st" "step sv st (PlayerReady c now) = Inr st'"
    and "rooms st k = Some r" "\<not> gameStarted r" "rooms st' k = Some r'"
  shows "gameStarted r' = ready_completes st (PlayerReady c now) k r"
proof (cases "conns st c")
  case None
  with assms show ?thesis by (auto simp: step_PlayerReady ready_completes_def)
next
  case (Some cn)
  with assms(2) have pr: "player_ready c cn now st = Inr st'" by (simp add: step_PlayerReady)
  note ex = player_ready_exact[OF pr]
  have d: "distinct (map fst (players r))"
    using assms(1,3) by (auto simp: rooms_ok_def room_ok_def)
  show ?thesis
  proof (cases "bound_room cn st")
    case None
    with ex have "st' = st" by simp
    moreover have "\<not> (roomId cn = Some k \<and> truthy k)"
      using None assms(3) by (auto simp: bound_room_def split: option.splits if_splits)
    ultimately show ?thesis
      using assms(3-5) Some by (auto simp: ready_completes_def)
  next
    case b: (Some a)
    obtain k0 r0 where a: "a = (k0, r0)" by (cases a)
    have b0: "rooms st k0 = Some r0" "roomId cn = Some k0" "k0 \<noteq> []"
      using bound_room_Some[of cn st k0 r0] b a by simp_all
    show ?thesis
    proof (cases "map_of (players r0) (playerId cn)")
      case None
      with ex b a have "st' = st" by simp
      with assms(3-5) Some b0 None show ?thesis
        by (auto simp: ready_completes_def)
    next
      case pl: (Some pl)
      let ?ps = "obj_set (players r0) (playerId cn) (pl\<lparr>ready := True\<rparr>)"
      from ex b a pl obtain r1 where r1: "rooms st' = (rooms st)(k0 \<mapsto> r1)"
        "gameStarted r1 = (gameStarted r0 \<or>
           (list_all (\<lambda>(p, q). ready q) ?ps \<and> length ?ps = 2))"
        by auto
      show ?thesis
      proof (cases "k = k0")
        case False
        with r1(1) assms(3-5) have "\<not> gameStarted r'" by simp
        with False Some b0 show ?thesis by (simp add: ready_completes_def)
      next
        case True
        with b0 assms(3) have rr: "r0 = r" by simp
        from True r1(1) assms(5) have r': "r1 = r'" by simp
        have "list_all (\<lambda>(p, q). ready q) ?ps =
              list_all (\<lambda>(p, q). p = playerId cn \<or> ready q) (players r)"
          using list_all_obj_set[of "players r" "playerId cn" pl ready "pl\<lparr>ready := True\<rparr>"] d pl rr
          by simp
        moreover have "length ?ps = length (players r)"
          using pl rr by (simp add: length_obj_set)
        ultimately show ?thesis
          using r1(2) r' rr assms(4) Some b0 True pl
          by (auto simp: ready_completes_def truthy_def)
      qed
    qed
  qed
qed

lemma other_events_do_not_start:
  assumes "step sv st e = Inr st'" "\<forall>c now. e \<noteq> PlayerReady c now"
    and "rooms st k = Some r" "\<not> gameStarted r" "rooms st' k = Some r'"
  shows "\<not> gameStarted r'"
  using room_step_step[OF assms(1), of k] assms(2-5)
  unfolding room_step_def
  by (auto simp: new_room_def)

lemma run_append:
  "run sv st (es1 @ es2) = (case run sv st es1 of Inl err \<Rightarrow> Inl err | Inr st1 \<Rightarrow> run sv st1 es2)"
  by (induction es1 arbitrary: st) (auto split: sum.splits)

lemma half_ready_run:
  "\<exists>st r. run sv init half_ready_trace = Inr st \<and>
     rooms st ''ABCDEF'' = Some r \<and> \<not> gameStarted r"
  by (cases sv) (simp_all add: half_ready_trace_def ev ev2)

lemma play_on_run:
  "\<exists>st r. run sv init (started_trace @ play_on_trace) = Inr st \<and> rooms st ''ABCDEF'' = Some r"
  by (cases sv) (simp_all add: started_trace_def play_on_trace_def ev ev2 ev4 ev5)

text \<open>
  C2. Take a state some run reaches and a room of it. When the room has not started, one
  more event leaves it started exactly when the event is a \<open>player_ready\<close> of a connection
  bound to the room whose id is one of its players, the room has exactly two players, and
  every player but the sender is ready already: the sender becomes ready, so both are
  ready and present at once. When the room has started, it is started after every further
  run in which the room still exists, unless an event of that run makes a new room under
  the same code.
\<close>

theorem gameStarted_transitions:
  assumes "run sv init es0 = Inr st" and "rooms st k = Some r"
  shows "(\<forall>e st' r'. step sv st e = Inr st' \<and> rooms st' k = Some r' \<and> \<not> gameStarted r \<longrightarrow>
            gameStarted r' = ready_completes st e k r) \<and>
         (\<forall>es st' r'. run sv st es = Inr st' \<and> rooms st' k = Some r' \<and> gameStarted r \<and>
            list_all (\<lambda>e. \<not> creates e k) es \<longrightarrow> gameStarted r')"
proof (intro conjI allI impI)
  fix e st' r'
  assume a: "step sv st e = Inr st' \<and> rooms st' k = Some r' \<and> \<not> gameStarted r"
  have ok: "rooms_ok st" using run_ok[OF init_ok assms(1)] .
  show "gameStarted r' = ready_completes st e k r"
  proof (cases "\<exists>c now. e = PlayerReady c now")
    case True
    then obtain c now where e: "e = PlayerReady c now" by blast
    from a ready_starts_iff[OF ok _ assms(2), of sv c now st' r'] e show ?thesis by simp
  next
    case False
    then have "\<forall>c now. e \<noteq> PlayerReady c now" by simp
    from other_events_do_not_start[OF _ this assms(2), of sv st' r'] a
    have "\<not> gameStarted r'" by simp
    moreover have "\<not> ready_completes st e k r"
      using False by (cases e) (simp_all add: ready_completes_def)
    ultimately show ?thesis by simp
  qed
next
  fix es st' r'
  assume a: "run sv st es = Inr st' \<and> rooms st' k = Some r' \<and> gameStarted r \<and>
            list_all (\<lambda>e. \<not> creates e k) es"
  then have "rooms st k = None \<or> (\<exists>r. rooms st k = Some r \<and> gameStarted r)"
    using assms(2) by simp
  from run_gameStarted_mono[OF _ _ this, of sv es st'] a show "gameStarted r'" by simp
qed

theorem gameStarted_transitions_witness:
  "\<exists>st r st1 r1 st2 r2.
     run SocketIO init half_ready_trace = Inr st \<and> rooms st ''ABCDEF'' = Some r \<and>
     \<not> gameStarted r \<and>
     step SocketIO st (PlayerReady 1 2000) = Inr st1 \<and> rooms st1 ''ABCDEF'' = Some r1 \<and>
     ready_completes st (PlayerReady 1 2000) ''ABCDEF'' r \<and> gameStarted r1 \<and>
     run SocketIO st1 play_on_trace = Inr st2 \<and> rooms st2 ''ABCDEF'' = Some r2 \<and>
     gameStarted r2"
proof -
  obtain st r where st: "run SocketIO init half_ready_trace = Inr st"
    "rooms st ''ABCDEF'' = Some r" "\<not> gameStarted r"
    using half_ready_run[of SocketIO] by blast
  obtain st1 r1 where st1: "run SocketIO init started_trace = Inr st1"
    "rooms st1 ''ABCDEF'' = Some r1" "gameStarted r1"
    using started_run[of SocketIO] by blast
  obtain st2 r2 where st2: "run SocketIO init (started_trace @ play_on_trace) = Inr st2"
    "rooms st2 ''ABCDEF'' = Some r2"
    using play_on_run[of SocketIO] by blast
  have sp: "started_trace = half_ready_trace @ [PlayerReady 1 2000]"
    by (simp add: started_trace_def half_ready_trace_def)
  have s1: "step SocketIO st (PlayerReady 1 2000) = Inr st1"
    using st1(1) st(1) unfolding sp run_append by (simp split: sum.splits)
  have s2: "run SocketIO st1 play_on_trace = Inr st2"
    using st2(1) st1(1) unfolding run_append by simp
  have nc: "list_all (\<lambda>e. \<not> creates e ''ABCDEF'') play_on_trace"
    by (simp add: play_on_trace_def creates_def)
  have "gameStarted r1 = ready_completes st (PlayerReady 1 2000) ''ABCDEF'' r"
    using conjunct1[OF gameStarted_transitions[OF st(1) st(2)], rule_format, of "PlayerReady 1 2000" st1 r1]
      s1 st1(2) st(3) by simp
  then have rc: "ready_completes st (PlayerReady 1 2000) ''ABCDEF'' r" using st1(3) by simp
  have g2: "gameStarted r2"
    using conjunct2[OF gameStarted_transitions[OF st1(1) st1(2)], rule_format, of play_on_trace st2 r2]
      s2 st2(2) st1(3) nc by simp
  from st s1 st1(2,3) rc s2 st2(2) g2 show ?thesis by blast
qed

section \<open>The two servers side by side\<close>

lemma same_timer_refl: "same_timer a a"
  by (simp add: same_timer_def)

lemma agree_refl: "agree s s"
  by (simp add: agree_def list_all2_refl same_timer_refl)

lemma agree_timers: "list_all2 same_timer (timers s) ts \<Longrightarrow> agree s (s\<lparr>timers := ts\<rparr>)"
  by (simp add: agree_def)

lemma agreeD: "agree s1 s2 \<Longrightarrow> \<exists>ts. list_all2 same_timer (timers s1) ts \<and> s2 = s1\<lparr>timers := ts\<rparr>"
  by (rule exI[of _ "timers s2"]) (simp add: agree_def)

lemma bound_room_timers [simp]: "bound_room cn (st\<lparr>timers := ts\<rparr>) = bound_room cn st"
  by (simp add: bound_room_def split: option.splits)

lemma create_room_timers:
  "create_room c cn rnd pn (st\<lparr>timers := ts\<rparr>) =
     map_sum id (\<lambda>s. s\<lparr>timers := ts\<rparr>) (create_room c cn rnd pn st)"
  by (simp add: create_room_def Let_def emit_def set_roomId_def)

lemma join_room_timers:
  "join_room c cn rid pn (st\<lparr>timers := ts\<rparr>) =
     map_sum id (\<lambda>s. s\<lparr>timers := ts\<rparr>) (join_room c cn rid pn st)"
  by (simp add: join_room_def Let_def emit_def set_roomId_def split: option.splits prod.splits)

lemma find_game_timers:
  "find_game c cn rnd pn (st\<lparr>timers := ts\<rparr>) =
     map_sum id (\<lambda>s. s\<lparr>timers := ts\<rparr>) (find_game c cn rnd pn st)"
  by (simp add: find_game_def Let_def emit_def set_roomId_def split: option.splits prod.splits)

lemma paddle_move_timers:
  "paddle_move c cn y (st\<lparr>timers := ts\<rparr>) =
     map_sum id (\<lambda>s. s\<lparr>timers := ts\<rparr>) (paddle_move c cn y st)"
  by (simp add: paddle_move_def Let_def emit_def relay_other_def put_room_def
        split: option.splits prod.splits)

lemma ball_update_timers:
  "ball_update c cn b (st\<lparr>timers := ts\<rparr>) =
     map_sum id (\<lambda>s. s\<lparr>timers := ts\<rparr>) (ball_update c cn b st)"
  by (simp add: ball_update_def Let_def emit_def relay_other_def put_room_def
        split: option.splits prod.splits)

lemma score_update_timers:
  "score_update c cn sc (st\<lparr>timers := ts\<rparr>) =
     map_sum id (\<lambda>s. s\<lparr>timers := ts\<rparr>) (score_update c cn sc st)"
  by (simp add: score_update_def Let_def broadcast_def put_room_def
        split: option.splits prod.splits)

lemma player_scored_timers:
  "player_scored c cn sp (st\<lparr>timers := ts\<rparr>) =
     map_sum id (\<lambda>s. s\<lparr>timers := ts\<rparr>) (player_scored c cn sp st)"
  by (simp add: player_scored_def Let_def broadcast_def put_room_def
        split: option.splits prod.splits)

lemma player_ready_timers:
  "list_all2 same_timer (timers st) ts \<Longrightarrow>
   \<exists>s1 s2. player_ready c cn now st = Inr s1 \<and> player_ready c cn now (st\<lparr>timers := ts\<rparr>) = Inr s2 \<and>
     agree s1 s2"
  by (frule list_all2_lengthD)
     (simp add: player_ready_def Let_def start_game_def broadcast_def put_room_def agree_def
        list_all2_appendI same_timer_def split: option.splits prod.splits)

lemma timers_emit [simp]: "timers (emit c m st) = timers st"
  by (simp add: emit_def)

lemma timers_set_roomId [simp]: "timers (set_roomId c cn k st) = timers st"
  by (simp add: set_roomId_def)

lemma create_room_keeps_timers: "create_room c cn rnd pn st = Inr s \<Longrightarrow> timers s = timers st"
  by (auto simp: create_room_def Let_def)

lemma join_room_keeps_timers: "join_room c cn rid pn st = Inr s \<Longrightarrow> timers s = timers st"
  by (auto simp: join_room_def Let_def split: option.splits prod.splits if_splits)

lemma find_game_keeps_timers: "find_game c cn rnd pn st = Inr s \<Longrightarrow> timers s = timers st"
  by (auto simp: find_game_def Let_def split: option.splits prod.splits if_splits)

lemma paddle_move_keeps_timers: "paddle_move c cn y st = Inr s \<Longrightarrow> timers s = timers st"
  by (auto simp: paddle_move_def Let_def split: option.splits prod.splits if_splits)

lemma ball_update_keeps_timers: "ball_update c cn b st = Inr s \<Longrightarrow> timers s = timers st"
  by (auto simp: ball_update_def Let_def split: option.splits prod.splits if_splits)

lemma score_update_keeps_timers: "score_update c cn sc st = Inr s \<Longrightarrow> timers s = timers st"
  by (auto simp: score_update_def Let_def split: option.splits prod.splits if_splits)

lemma player_scored_keeps_timers: "player_scored c cn sp st = Inr s \<Longrightarrow> timers s = timers st"
  by (auto simp: player_scored_def Let_def split: option.splits prod.splits if_splits)

lemma handle_timers:
  assumes "\<forall>c' now. e \<noteq> PlayerReady c' now"
  shows "handle e c cn (st\<lparr>timers := ts\<rparr>) = map_sum id (\<lambda>s. s\<lparr>timers := ts\<rparr>) (handle e c cn st)"
  using assms
  by (cases e)
     (simp_all add: create_room_timers join_room_timers find_game_timers paddle_move_timers
        ball_update_timers score_update_timers player_scored_timers)

lemma handle_keeps_timers:
  assumes "\<forall>c' now. e \<noteq> PlayerReady c' now" "handle e c cn st = Inr s"
  shows "timers s = timers st"
  using assms
  by (cases e)
     (auto dest: create_room_keeps_timers join_room_keeps_timers find_game_keeps_timers
        paddle_move_keeps_timers ball_update_keeps_timers score_update_keeps_timers
        player_scored_keeps_timers)

lemma handle_agree:
  assumes "agree s1 s2" "handle e c cn s1 = Inr s1'"
  shows "\<exists>s2'. handle e c cn s2 = Inr s2' \<and> agree s1' s2'"
proof -
  obtain ts where ts: "list_all2 same_timer (timers s1) ts" "s2 = s1\<lparr>timers := ts\<rparr>"
    using agreeD[OF assms(1)] by blast
  show ?thesis
  proof (cases "\<exists>c' now. e = PlayerReady c' now")
    case True
    then obtain c' now where e: "e = PlayerReady c' now" by blast
    with assms(2) ts player_ready_timers[OF ts(1), of c cn now] show ?thesis by auto
  next
    case False
    then have ne: "\<forall>c' now. e \<noteq> PlayerReady c' now" by simp
    have "timers s1' = timers s1" using handle_keeps_timers[OF ne assms(2)] .
    then have "agree s1' (s1'\<lparr>timers := ts\<rparr>)" using ts(1) by (simp add: agree_timers)
    moreover have "handle e c cn s2 = Inr (s1'\<lparr>timers := ts\<rparr>)"
      using handle_timers[OF ne, where c=c and cn=cn and st=s1 and ts=ts] assms(2) ts(2) by simp
    ultimately show ?thesis by blast
  qed
qed

lemma same_timer_clear: "same_timer a b \<Longrightarrow> same_timer (a\<lparr>active := False\<rparr>) b"
  by (simp add: same_timer_def)

lemma same_timer_clear_both:
  "same_timer a b \<Longrightarrow> same_timer (a\<lparr>active := False\<rparr>) (b\<lparr>active := False\<rparr>)"
  by (simp add: same_timer_def)

lemma list_all2_clear_left:
  assumes "list_all2 same_timer xs ys" "i < length xs"
  shows "list_all2 same_timer (xs[i := (xs ! i)\<lparr>active := False\<rparr>]) ys"
proof -
  have "list_all2 same_timer (xs[i := (xs ! i)\<lparr>active := False\<rparr>]) (ys[i := ys ! i])"
    using assms by (intro list_all2_update_cong) (auto dest: list_all2_nthD intro: same_timer_clear)
  then show ?thesis by simp
qed

lemma list_all2_clear_both:
  assumes "list_all2 same_timer xs ys" "i < length xs"
  shows "list_all2 same_timer (xs[i := (xs ! i)\<lparr>active := False\<rparr>])
           (ys[i := (ys ! i)\<lparr>active := False\<rparr>])"
  using assms
  by (intro list_all2_update_cong) (auto dest: list_all2_nthD intro: same_timer_clear_both)

lemma clearInterval_agree_left:
  assumes "agree s1 s2"
  shows "agree (clearInterval t s1) s2"
proof (cases t)
  case None
  with assms show ?thesis by (simp add: clearInterval_def)
next
  case (Some i)
  with assms show ?thesis
    by (auto simp: clearInterval_def agree_def intro: list_all2_clear_left)
qed

lemma clearInterval_agree_both:
  assumes "agree s1 s2"
  shows "agree (clearInterval t s1) (clearInterval t s2)"
proof (cases t)
  case None
  with assms show ?thesis by (simp add: clearInterval_def)
next
  case (Some i)
  with assms show ?thesis
    by (auto simp: clearInterval_def agree_def intro: list_all2_clear_both dest: list_all2_lengthD)
qed

lemma agree_cong:
  "agree s1 s2 \<Longrightarrow> agree (emit c m s1) (emit c m s2)"
  "agree s1 s2 \<Longrightarrow> agree (broadcast ps f s1) (broadcast ps f s2)"
  "agree s1 s2 \<Longrightarrow> agree (put_room k r s1) (put_room k r s2)"
  "agree s1 s2 \<Longrightarrow> agree (delete_room k s1) (delete_room k s2)"
  "agree s1 s2 \<Longrightarrow> agree (notify_others ps me s1) (notify_others ps me s2)"
  "agree s1 s2 \<Longrightarrow> agree (s1\<lparr>waitingPlayers := w\<rparr>) (s2\<lparr>waitingPlayers := w\<rparr>)"
  by (simp_all add: agree_def emit_def broadcast_def put_room_def delete_room_def
        notify_others_def)

lemma bound_room_agree: "agree s1 s2 \<Longrightarrow> bound_room cn s2 = bound_room cn s1"
  by (simp add: agree_def bound_room_def split: option.splits)

lemma disconnect_agree:
  assumes "agree s1 s2"
  shows "agree (disconnect_sio c cn s1) (close_ws c cn s2)"
proof -
  have w: "waitingPlayers s2 = waitingPlayers s1" using assms by (simp add: agree_def)
  let ?a = "s1\<lparr>waitingPlayers := obj_delete (waitingPlayers s1) (playerId cn)\<rparr>"
  let ?b = "s2\<lparr>waitingPlayers := obj_delete (waitingPlayers s1) (playerId cn)\<rparr>"
  have ab: "agree ?a ?b" using assms by (rule agree_cong)
  have br: "bound_room cn ?b = bound_room cn ?a" using ab by (rule bound_room_agree)
  show ?thesis
  proof (cases "bound_room cn ?a")
    case None
    with br ab w show ?thesis by (simp add: disconnect_sio_def close_ws_def Let_def)
  next
    case (Some a)
    obtain k r where a: "a = (k, r)" by (cases a)
    have n: "agree (notify_others (players r) (playerId cn) ?a)
                   (notify_others (players r) (playerId cn) ?b)"
      using ab by (rule agree_cong)
    show ?thesis
    proof (cases "length (obj_delete (players r) (playerId cn)) = 0")
      case True
      have "agree (delete_room k (clearInterval (matchTimer r)
                     (notify_others (players r) (playerId cn) ?a)))
                  (delete_room k (notify_others (players r) (playerId cn) ?b))"
        by (intro agree_cong clearInterval_agree_left n)
      with Some a br w True show ?thesis
        by (simp add: disconnect_sio_def close_ws_def Let_def)
    next
      case False
      have "agree (put_room k (r\<lparr>players := obj_delete (players r) (playerId cn)\<rparr>)
                     (notify_others (players r) (playerId cn) ?a))
                  (put_room k (r\<lparr>players := obj_delete (players r) (playerId cn)\<rparr>)
                     (notify_others (players r) (playerId cn) ?b))"
        by (intro agree_cong n)
      with Some a br w False show ?thesis
        by (simp add: disconnect_sio_def close_ws_def Let_def)
    qed
  qed
qed

lemma connect_agree:
  assumes "agree s1 s2"
  shows "agree (connect c p s1) (connect c p s2)"
  using assms by (auto simp: connect_def agree_def emit_def split: option.splits)

lemma timer_body_agree:
  assumes "agree s1 s2" "tp0 tm' = tp0 tm" "tp1 tm' = tp1 tm"
  shows "agree (timer_body tm k r ms now s1) (timer_body tm' k r ms now s2)"
  unfolding timer_body_def Let_def assms(2,3)
  by (auto intro!: agree_cong clearInterval_agree_both assms(1))

lemma tick_agree:
  assumes "agree s1 s2" "fires s1 (Tick t now)" "tick t now s1 = Inr s1'"
  shows "\<exists>s2'. tick t now s2 = Inr s2' \<and> agree s1' s2'"
proof -
  have l: "list_all2 same_timer (timers s1) (timers s2)" using assms(1) by (simp add: agree_def)
  have t: "t < length (timers s1)" "active (timers s1 ! t)" using assms(2) by simp_all
  have t2: "t < length (timers s2)" using l t(1) by (simp add: list_all2_lengthD)
  have st: "same_timer (timers s1 ! t) (timers s2 ! t)" using l t(1) by (rule list_all2_nthD)
  then have a2: "active (timers s2 ! t)" "owner (timers s2 ! t) = owner (timers s1 ! t)"
    "tp0 (timers s2 ! t) = tp0 (timers s1 ! t)" "tp1 (timers s2 ! t) = tp1 (timers s1 ! t)"
    using t(2) by (simp_all add: same_timer_def)
  have cr: "conns s2 = conns s1" "rooms s2 = rooms s1" using assms(1) by (simp_all add: agree_def)
  show ?thesis
  proof (cases "conns s1 (owner (timers s1 ! t))")
    case None
    with assms t t2 a2 cr show ?thesis by (auto simp: tick_def Let_def)
  next
    case (Some cn)
    show ?thesis
    proof (cases "rooms s1 (js_key (roomId cn))")
      case None
      with assms(3) t Some show ?thesis by (simp add: tick_def Let_def)
    next
      case r: (Some r)
      show ?thesis
      proof (cases "matchState r")
        case None
        with assms(3) t Some r show ?thesis by (simp add: tick_def Let_def)
      next
        case ms: (Some ms)
        have 1: "s1' = timer_body (timers s1 ! t) (js_key (roomId cn)) r ms now s1"
          using assms(3) t Some r ms by (simp add: tick_def Let_def)
        have 2: "tick t now s2 =
                   Inr (timer_body (timers s2 ! t) (js_key (roomId cn)) r ms now s2)"
          using t2 a2 cr Some r ms by (simp add: tick_def Let_def)
        from 1 2 timer_body_agree[OF assms(1) a2(3,4)] show ?thesis by simp
      qed
    qed
  qed
qed

lemma step_agree:
  assumes "agree s1 s2" "fires s1 e" "step SocketIO s1 e = Inr s1'"
  shows "\<exists>s2'. step WebSocket s2 e = Inr s2' \<and> agree s1' s2'"
proof (cases "\<exists>c p. e = Connect c p")
  case True
  with assms show ?thesis by (auto simp: step_def intro: connect_agree)
next
  case nc: False
  have cc: "conns s2 = conns s1" using assms(1) by (simp add: agree_def)
  show ?thesis
  proof (cases "\<exists>t now. e = Tick t now")
    case True
    then obtain t now where e: "e = Tick t now" by blast
    with assms(3) have "tick t now s1 = Inr s1'" by (simp add: step_def)
    from tick_agree[OF assms(1) assms(2)[unfolded e] this] e show ?thesis
      by (simp add: step_def)
  next
    case nt: False
    show ?thesis
    proof (cases "\<exists>c. e = Disconnect c")
      case True
      then obtain c where e: "e = Disconnect c" by blast
      show ?thesis
      proof (cases "conns s1 c")
        case None
        with assms e cc show ?thesis by (simp add: step_def)
      next
        case (Some cn)
        with assms e cc show ?thesis by (auto simp: step_def intro: disconnect_agree)
      qed
    next
      case nd: False
      show ?thesis
      proof (cases "sender e")
        case None
        with assms nc nt nd show ?thesis by (cases e) (auto simp: step_def)
      next
        case (Some c)
        show ?thesis
        proof (cases "conns s1 c")
          case None
          with assms nc nt nd Some cc show ?thesis by (cases e) (auto simp: step_def)
        next
          case cn: (Some cn)
          have h: "handle e c cn s1 = Inr s1'"
            using assms(3) nc nt nd Some cn
            by (cases e) (auto simp: step_def on_event_sio_def)
          obtain s2' where s2': "handle e c cn s2 = Inr s2'" "agree s1' s2'"
            using handle_agree[OF assms(1) h] by blast
          have "step WebSocket s2 e = Inr s2'"
            using nc nt nd Some cn cc s2'(1)
            by (cases e) (auto simp: step_def on_message_ws_def)
          with s2'(2) show ?thesis by blast
        qed
      qed
    qed
  qed
qed

lemma run_agree:
  assumes "agree s1 s2" "deliverable s1 es" "run SocketIO s1 es = Inr s1'"
  shows "\<exists>s2'. run WebSocket s2 es = Inr s2' \<and> agree s1' s2'"
  using assms
proof (induction es arbitrary: s1 s2)
  case Nil
  then show ?case by simp
next
  case (Cons e es)
  from Cons.prems(3) obtain t1 where 1: "step SocketIO s1 e = Inr t1" "run SocketIO t1 es = Inr s1'"
    by (auto split: sum.splits)
  from Cons.prems(2) 1(1) have i: "fires s1 e" "deliverable t1 es" by simp_all
  obtain t2 where 2: "step WebSocket s2 e = Inr t2" "agree t1 t2"
    using step_agree[OF Cons.prems(1) i(1) 1(1)] by blast
  from Cons.IH[OF 2(2) i(2) 1(2)] 2(1) show ?case by simp
qed

lemma inbound_fires: "inbound e \<Longrightarrow> fires st e"
  by (cases e) simp_all

lemma inbound_deliverable: "list_all inbound es \<Longrightarrow> deliverable st es"
  by (induction es arbitrary: st) (auto simp: inbound_fires split: sum.splits)

lemma step_same:
  assumes "\<not> is_disconnect e" "step SocketIO st e = Inr st'"
  shows "step WebSocket st e = Inr st'"
proof (cases "sender e")
  case None
  with assms show ?thesis by (cases e) (auto simp: step_def)
next
  case (Some c)
  show ?thesis
  proof (cases "conns st c")
    case None
    with assms Some show ?thesis by (cases e) (auto simp: step_def)
  next
    case cn: (Some cn)
    with assms Some show ?thesis
      by (cases e) (auto simp: step_def on_event_sio_def on_message_ws_def)
  qed
qed

lemma run_same:
  assumes "list_all (\<lambda>e. \<not> is_disconnect e) es" "run SocketIO st es = Inr st'"
  shows "run WebSocket st es = Inr st'"
  using assms
proof (induction es arbitrary: st)
  case Nil
  then show ?case by simp
next
  case (Cons e es)
  from Cons.prems(2) obtain t1 where 1: "step SocketIO st e = Inr t1" "run SocketIO t1 es = Inr st'"
    by (auto split: sum.splits)
  from Cons.prems(1) have i: "\<not> is_disconnect e" "list_all (\<lambda>e. \<not> is_disconnect e) es"
    by simp_all
  from step_same[OF i(1) 1(1)] Cons.IH[OF i(2) 1(2)] show ?case by simp
qed

lemma step_throw_caught:
  assumes "inbound e" "step SocketIO st e = Inl err"
  shows "step WebSocket st e = Inr st"
proof (cases "sender e")
  case None
  with assms show ?thesis by (cases e) (auto simp: step_def split: option.splits)
next
  case (Some c)
  show ?thesis
  proof (cases "conns st c")
    case None
    with assms Some show ?thesis by (cases e) (auto simp: step_def)
  next
    case cn: (Some cn)
    with assms Some show ?thesis
      by (cases e) (auto simp: step_def on_event_sio_def on_message_ws_def split: sum.splits)
  qed
qed

text \<open>
  On a \<open>join_room\<close> without a room code the handler of the Socket.io server throws and
  nothing catches it, so the run ends; the WebSocket server catches it and goes on to
  greet the next client.
\<close>

theorem servers_differ_on_throw:
  "run SocketIO init join_without_code_trace = Inl TypeError \<and>
   map_option last (outbox_after (run WebSocket init join_without_code_trace)) =
     Some (3, Connection ''d'')"
  by (simp add: outbox_after_def join_without_code_trace_def lobby_trace_def ev)

text \<open>
  C5, as the code has it. From a common state, take a sequence of events, messages,
  connections, disconnections and timer ticks, that is deliverable (every tick is of a
  timer the Socket.io server has made and not cleared) and on which no handler of the
  Socket.io server throws. The WebSocket server then passes through the same rooms,
  waiting list and connection bindings and sends the same messages, timer broadcasts
  included, to the same sockets. On a sequence without a disconnection, ticks of any kind
  included, the two servers reach the very same state. On an inbound event whose handler
  throws, the Socket.io server leaves the exception uncaught and the WebSocket server
  drops the event and keeps its state.
\<close>

theorem servers_agree:
  "(\<forall>es s1. deliverable st es \<and> run SocketIO st es = Inr s1 \<longrightarrow>
      (\<exists>s2. run WebSocket st es = Inr s2 \<and> rooms s2 = rooms s1 \<and>
         waitingPlayers s2 = waitingPlayers s1 \<and> conns s2 = conns s1 \<and>
         outbox s2 = outbox s1)) \<and>
   (\<forall>es s1. list_all (\<lambda>e. \<not> is_disconnect e) es \<and> run SocketIO st es = Inr s1 \<longrightarrow>
      run WebSocket st es = Inr s1) \<and>
   (\<forall>e err. inbound e \<and> step SocketIO st e = Inl err \<longrightarrow> step WebSocket st e = Inr st)"
proof (intro conjI allI impI)
  fix es s1
  assume a: "deliverable st es \<and> run SocketIO st es = Inr s1"
  then obtain s2 where "run WebSocket st es = Inr s2" "agree s1 s2"
    using run_agree[OF agree_refl, of st es s1] by blast
  then show "\<exists>s2. run WebSocket st es = Inr s2 \<and> rooms s2 = rooms s1 \<and>
         waitingPlayers s2 = waitingPlayers s1 \<and> conns s2 = conns s1 \<and>
         outbox s2 = outbox s1"
    by (auto simp: agree_def)
next
  fix es s1
  assume "list_all (\<lambda>e. \<not> is_disconnect e) es \<and> run SocketIO st es = Inr s1"
  then show "run WebSocket st es = Inr s1" by (auto intro: run_same)
next
  fix e err
  assume "inbound e \<and> step SocketIO st e = Inl err"
  then show "step WebSocket st e = Inr st" by (auto intro: step_throw_caught)
qed

lemma match_run:
  "deliverable init match_trace \<and>
   (\<exists>s1 ms. run SocketIO init match_trace = Inr s1 \<and> conns s1 0 \<noteq> None \<and>
       last (outbox s1) = (0, Set2Starting ms))"
  by (simp add: match_trace_def started_trace_def ev ev2 ev3 ev4)

theorem servers_agree_witness:
  "\<exists>s1 s2 s3 ms. deliverable init match_trace \<and>
     run SocketIO init match_trace = Inr s1 \<and> last (outbox s1) = (0, Set2Starting ms) \<and>
     run WebSocket init match_trace = Inr s2 \<and> rooms s2 = rooms s1 \<and>
     waitingPlayers s2 = waitingPlayers s1 \<and> conns s2 = conns s1 \<and> outbox s2 = outbox s1 \<and>
     list_all (\<lambda>e. \<not> is_disconnect e) started_trace \<and>
     run SocketIO init started_trace = Inr s3 \<and> run WebSocket init started_trace = Inr s3 \<and>
     inbound (JoinRoom 0 None None) \<and>
     step SocketIO s1 (JoinRoom 0 None None) = Inl TypeError \<and>
     step WebSocket s1 (JoinRoom 0 None None) = Inr s1"
proof -
  obtain s1 ms where s1: "deliverable init match_trace" "run SocketIO init match_trace = Inr s1"
    "conns s1 0 \<noteq> None" "last (outbox s1) = (0, Set2Starting ms)"
    using match_run by blast
  have t: "step SocketIO s1 (JoinRoom 0 None None) = Inl TypeError"
    using s1(3) by (auto simp: step_def on_event_sio_def join_room_def)
  obtain s2 where s2: "run WebSocket init match_trace = Inr s2" "rooms s2 = rooms s1"
    "waitingPlayers s2 = waitingPlayers s1" "conns s2 = conns s1" "outbox s2 = outbox s1"
    using conjunct1[OF servers_agree[of init], rule_format, of match_trace s1] s1(1,2)
    by blast
  have nd: "list_all (\<lambda>e. \<not> is_disconnect e) started_trace"
    by (simp add: started_trace_def)
  obtain s3 where s3: "run SocketIO init started_trace = Inr s3"
    using started_run[of SocketIO] by blast
  have s3': "run WebSocket init started_trace = Inr s3"
    using conjunct1[OF conjunct2[OF servers_agree[of init]], rule_format, of started_trace s3] nd s3
    by simp
  have c: "step WebSocket s1 (JoinRoom 0 None None) = Inr s1"
    using conjunct2[OF conjunct2[OF servers_agree[of s1]], rule_format, of "JoinRoom 0 None None" TypeError] t
    by simp
  from s1(1,2,4) s2 nd s3 s3' t c show ?thesis by auto
qed

end
